theory Spec2Isabelle
  imports Main "HOL-Library.Word"
begin

unbundle bit_operations_syntax

section \<open>Bytes, buffers and JavaScript strings\<close>

text \<open>
  The image conversion server (\<^verbatim>\<open>src/server.js\<close> and its Cloudinary-free variant) works on
  Node.js \<^verbatim>\<open>Buffer\<close>s and strings. A buffer is the list of its bytes. A JavaScript string is
  the list of its code points; every string the server compares against is plain ASCII, so
  code points and UTF-16 code units agree wherever a comparison can succeed.
\<close>

type_synonym byte = "8 word"
type_synonym buffer = "byte list"
type_synonym jsstring = "nat list"

definition lit :: "string \<Rightarrow> jsstring" where
  "lit s = map of_char s"

text \<open>\<^verbatim>\<open>x.slice(a, b)\<close> (\<open>js_slice\<close>) for non-negative \<^verbatim>\<open>a\<close>, \<^verbatim>\<open>b\<close>, on a buffer and on a string alike:
  both ends are clamped to the length, and an empty range gives the empty result.\<close>

definition js_slice :: "nat \<Rightarrow> nat \<Rightarrow> 'a list \<Rightarrow> 'a list" where
  "js_slice a b xs = take (b - a) (drop a xs)"

text \<open>\<^verbatim>\<open>buffer[i]\<close>: \<^verbatim>\<open>undefined\<close> (here \<open>None\<close>) outside the buffer.\<close>

definition buf_at :: "buffer \<Rightarrow> nat \<Rightarrow> byte option" where
  "buf_at b i = (if i < length b then Some (b ! i) else None)"

text \<open>\<^verbatim>\<open>s.startsWith(p)\<close> and \<^verbatim>\<open>s.includes(p)\<close> (\<open>js_includes\<close>: the plain name is an Isabelle keyword).\<close>

definition startsWith :: "'a list \<Rightarrow> 'a list \<Rightarrow> bool" where
  "startsWith s p = (take (length p) s = p)"

fun js_includes :: "'a list \<Rightarrow> 'a list \<Rightarrow> bool" where
  "js_includes [] p = (p = [])"
| "js_includes (x # xs) p = (startsWith (x # xs) p \<or> js_includes xs p)"

text \<open>
  \<^verbatim>\<open>buffer.toString('ascii')\<close>. Node.js documents the \<^verbatim>\<open>'ascii'\<close> encoding as 7-bit only:
  when a buffer is decoded, the highest bit of every byte is unset before the byte becomes
  a character.
\<close>

definition toString_ascii :: "buffer \<Rightarrow> jsstring" where
  "toString_ascii b = map (\<lambda>x. unat (x AND 0x7F)) b"

text \<open>
  \<^verbatim>\<open>buffer.toString('utf8')\<close>: the UTF-8 decoder with replacement. A byte below \<open>0x80\<close> is
  the character itself; a lead byte opens a sequence of one to three continuation bytes
  whose first one has a narrowed range for \<open>E0\<close>, \<open>ED\<close>, \<open>F0\<close> and \<open>F4\<close>; a byte that
  cannot continue the open sequence ends it with U+FFFD and is then decoded afresh; a
  sequence cut off by the end of the buffer gives U+FFFD. An open sequence is
  (code point so far, bytes still needed, lowest and highest byte accepted next).
\<close>

type_synonym utf8_seq = "nat \<times> nat \<times> nat \<times> nat"

definition utf8_lead :: "nat \<Rightarrow> jsstring \<times> utf8_seq option" where
  "utf8_lead b =
     (if b \<le> 0x7F then ([b], None)
      else if 0xC2 \<le> b \<and> b \<le> 0xDF then ([], Some (b mod 32, 1, 0x80, 0xBF))
      else if 0xE0 \<le> b \<and> b \<le> 0xEF then
        ([], Some (b mod 16, 2, if b = 0xE0 then 0xA0 else 0x80, if b = 0xED then 0x9F else 0xBF))
      else if 0xF0 \<le> b \<and> b \<le> 0xF4 then
        ([], Some (b mod 8, 3, if b = 0xF0 then 0x90 else 0x80, if b = 0xF4 then 0x8F else 0xBF))
      else ([0xFFFD], None))"

fun utf8_decode :: "utf8_seq option \<Rightarrow> nat list \<Rightarrow> jsstring" where
  "utf8_decode None [] = []"
| "utf8_decode (Some q) [] = [0xFFFD]"
| "utf8_decode None (b # bs) = (case utf8_lead b of (out, q) \<Rightarrow> out @ utf8_decode q bs)"
| "utf8_decode (Some (cp, needed, lo, hi)) (b # bs) =
     (if b < lo \<or> hi < b then
        0xFFFD # (case utf8_lead b of (out, q) \<Rightarrow> out @ utf8_decode q bs)
      else if needed = 1 then (cp * 64 + b mod 64) # utf8_decode None bs
      else utf8_decode (Some (cp * 64 + b mod 64, needed - 1, 0x80, 0xBF)) bs)"

definition toString_utf8 :: "buffer \<Rightarrow> jsstring" where
  "toString_utf8 b = utf8_decode None (map unat b)"

text \<open>
  \<^verbatim>\<open>s.toLowerCase()\<close>. The letters \<open>A\<close> to \<open>Z\<close> are folded; a character outside ASCII is
  left as it is. Only two such characters have a lower-case form with an ASCII character
  in it, U+0130 (\<open>i\<close> followed by U+0307) and U+212A (\<open>k\<close>), and neither form can
  complete one of the strings the server compares with (\<open><svg\<close>, \<open>1\<close> and the format
  names), so no comparison made by the server can tell the difference.
\<close>

definition toLowerCase :: "jsstring \<Rightarrow> jsstring" where
  "toLowerCase s = map (\<lambda>c. if 65 \<le> c \<and> c \<le> 90 then c + 32 else c) s"

section \<open>Signature detection\<close>

text \<open>The result object \<^verbatim>\<open>{ valid, kind }\<close> of \<^verbatim>\<open>detectMagic\<close>; \<open>kind\<close> is a string, as in
  the source.\<close>

record magic =
  valid :: bool
  kind :: jsstring

definition png_signature :: buffer where
  "png_signature = [0x89, 0x50, 0x4E, 0x47, 0x0D, 0x0A, 0x1A, 0x0A]"

definition detectMagic :: "buffer \<Rightarrow> magic" where
  "detectMagic buffer =
     (let header = js_slice 0 12 buffer;
          ascii = toString_ascii header;
          utf8 = toLowerCase (toString_utf8 buffer)
      in if length buffer \<ge> 8 \<and> js_slice 0 8 buffer = png_signature then
           \<lparr>valid = True, kind = lit ''png''\<rparr>
         else if length buffer \<ge> 3 \<and> buf_at buffer 0 = Some 0xFF \<and> buf_at buffer 1 = Some 0xD8
                 \<and> buf_at buffer 2 = Some 0xFF then
           \<lparr>valid = True, kind = lit ''jpeg''\<rparr>
         else if startsWith ascii (lit ''RIFF'') \<and> js_slice 8 12 ascii = lit ''WEBP'' then
           \<lparr>valid = True, kind = lit ''webp''\<rparr>
         else if js_includes (js_slice 4 12 ascii) (lit ''ftypavif'')
                 \<or> js_includes (js_slice 4 12 ascii) (lit ''ftypavis'') then
           \<lparr>valid = True, kind = lit ''avif''\<rparr>
         else if startsWith ascii (lit ''GIF87a'') \<or> startsWith ascii (lit ''GIF89a'') then
           \<lparr>valid = True, kind = lit ''gif''\<rparr>
         else if js_includes utf8 (lit ''<svg'') then
           \<lparr>valid = True, kind = lit ''svg''\<rparr>
         else \<lparr>valid = False, kind = lit ''unknown''\<rparr>)"

text \<open>
  The six rules as the specification words them, on the bytes themselves: rule 1 asks
  that the first 8 bytes equal the PNG signature, rule 2 that the first 3 bytes are
  \<open>FF D8 FF\<close>, rule 3 that bytes 0 to 3 are \<open>RIFF\<close> and bytes 8 to 11 are \<open>WEBP\<close>, rule 4
  looks for the brand in bytes 4 to 11, rule 5 asks for a start with \<open>GIF87a\<close> or
  \<open>GIF89a\<close>, rule 6 searches the lower-cased UTF-8 decoding of the whole buffer. The
  first rule that matches decides. Rules 3 to 5 read the first 12 bytes through \<open>view\<close>;
  the specification reads them as they are.
\<close>

definition ascii_bytes :: "string \<Rightarrow> buffer" where
  "ascii_bytes s = map of_char s"

definition signature_rules :: "(buffer \<Rightarrow> buffer) \<Rightarrow> buffer \<Rightarrow> magic" where
  "signature_rules view buffer =
     (let header = view (js_slice 0 12 buffer) in
      if js_slice 0 8 buffer = png_signature then \<lparr>valid = True, kind = lit ''png''\<rparr>
      else if js_slice 0 3 buffer = [0xFF, 0xD8, 0xFF] then \<lparr>valid = True, kind = lit ''jpeg''\<rparr>
      else if js_slice 0 4 header = ascii_bytes ''RIFF'' \<and> js_slice 8 12 header = ascii_bytes ''WEBP'' then
        \<lparr>valid = True, kind = lit ''webp''\<rparr>
      else if js_includes (js_slice 4 12 header) (ascii_bytes ''ftypavif'')
              \<or> js_includes (js_slice 4 12 header) (ascii_bytes ''ftypavis'') then
        \<lparr>valid = True, kind = lit ''avif''\<rparr>
      else if startsWith header (ascii_bytes ''GIF87a'') \<or> startsWith header (ascii_bytes ''GIF89a'') then
        \<lparr>valid = True, kind = lit ''gif''\<rparr>
      else if js_includes (toLowerCase (toString_utf8 buffer)) (lit ''<svg'') then
        \<lparr>valid = True, kind = lit ''svg''\<rparr>
      else \<lparr>valid = False, kind = lit ''unknown''\<rparr>)"

definition spec_detectMagic :: "buffer \<Rightarrow> magic" where
  "spec_detectMagic buffer = signature_rules (\<lambda>header. header) buffer"

text \<open>What \<^verbatim>\<open>toString('ascii')\<close> does to the bytes before they become characters.\<close>

definition clear_high_bits :: "buffer \<Rightarrow> buffer" where
  "clear_high_bits b = map (\<lambda>x. x AND 0x7F) b"

section \<open>Output formats\<close>

text \<open>
  The \<^verbatim>\<open>sharp\<close> transformer is an external capability. What the server does to it is
  kept as a record: the constructor options, whether \<^verbatim>\<open>rotate()\<close> and \<^verbatim>\<open>withMetadata()\<close>
  were called, and the encoder chosen by \<^verbatim>\<open>applyOutputFormat\<close> with its options.
\<close>

datatype encoder =
    Webp (quality: nat) (effort: nat)
  | Png (compressionLevel: nat) (adaptiveFiltering: bool)
  | Jpeg (quality: nat) (mozjpeg: bool)
  | Avif (quality: nat) (effort: nat)

record sharp =
  failOnError :: bool
  sequentialRead :: bool
  rotated :: bool
  metadata :: bool
  encoder :: "encoder option"

definition applyOutputFormat :: "sharp \<Rightarrow> jsstring \<Rightarrow> sharp" where
  "applyOutputFormat transformer format =
     (if format = lit ''webp'' then transformer\<lparr>encoder := Some (Webp 80 4)\<rparr>
      else if format = lit ''png'' then transformer\<lparr>encoder := Some (Png 9 True)\<rparr>
      else if format = lit ''jpeg'' \<or> format = lit ''jpg'' then
        transformer\<lparr>encoder := Some (Jpeg 82 True)\<rparr>
      else transformer\<lparr>encoder := Some (Avif 50 4)\<rparr>)"

definition contentTypeForFormat :: "jsstring \<Rightarrow> jsstring" where
  "contentTypeForFormat format =
     (if format = lit ''webp'' then lit ''image/webp''
      else if format = lit ''png'' then lit ''image/png''
      else if format = lit ''jpeg'' \<or> format = lit ''jpg'' then lit ''image/jpeg''
      else lit ''image/avif'')"

definition isAllowedFormat :: "jsstring \<Rightarrow> bool" where
  "isAllowedFormat format =
     (format = lit ''webp'' \<or> format = lit ''png'' \<or> format = lit ''jpeg''
      \<or> format = lit ''jpg'' \<or> format = lit ''avif'' \<or> format = lit ''svg'')"

section \<open>Node.js streams\<close>

text \<open>
  The uploaded file reaches the server as a \<^verbatim>\<open>Readable\<close> in paused mode. Its state, as far
  as \<^verbatim>\<open>read\<close>, the \<^verbatim>\<open>'readable'\<close> and \<^verbatim>\<open>'end'\<close> events and \<^verbatim>\<open>destroy\<close> depend on it:
  \<^item> \<open>buffered\<close>: the bytes pushed by the producer and not yet read;
  \<^item> \<open>upcoming\<close>: \<open>Some cs\<close> while the producer still has the chunks \<open>cs\<close> to push, one
    per turn of the event loop and in this order, before it pushes end-of-file; \<open>None\<close>
    once end-of-file has been pushed (\<^verbatim>\<open>state.ended\<close>);
  \<^item> \<open>readableQueued\<close>: a call of \<^verbatim>\<open>emitReadable_\<close> is waiting in the tick queue (a push in
    the current tick has asked for a \<^verbatim>\<open>'readable'\<close> event that has not been emitted yet);
  \<^item> \<open>endQueued\<close>: \<^verbatim>\<open>endReadable\<close> has put \<^verbatim>\<open>endReadableNT\<close> into the tick queue;
  \<^item> \<open>endEmitted\<close>: \<^verbatim>\<open>'end'\<close> has been emitted; this is what \<^verbatim>\<open>stream.readableEnded\<close> reads;
  \<^item> \<open>paused\<close>, \<open>destroyed\<close>; \<open>closes\<close> counts the \<^verbatim>\<open>'close'\<close> events emitted.

  The automatic \<^verbatim>\<open>destroy\<close> that follows \<^verbatim>\<open>'end'\<close> is left out: nothing the server does
  after the end of its source reads \<open>destroyed\<close> or \<open>closes\<close> of that source.
\<close>

record readable =
  buffered :: buffer
  upcoming :: "buffer list option"
  readableQueued :: bool
  endQueued :: bool
  endEmitted :: bool
  paused :: bool
  destroyed :: bool
  closes :: nat

definition ended :: "readable \<Rightarrow> bool" where
  "ended s = (upcoming s = None)"

definition readableEnded :: "readable \<Rightarrow> bool" where
  "readableEnded s = endEmitted s"

text \<open>All the bytes the stream still holds or will receive, in order.\<close>

definition all_bytes :: "readable \<Rightarrow> buffer" where
  "all_bytes s = buffered s @ (case upcoming s of None \<Rightarrow> [] | Some cs \<Rightarrow> concat cs)"

definition pause :: "readable \<Rightarrow> readable" where
  "pause s = s\<lparr>paused := True\<rparr>"

definition resume :: "readable \<Rightarrow> readable" where
  "resume s = s\<lparr>paused := False\<rparr>"

text \<open>\<^verbatim>\<open>destroy()\<close> does nothing on a stream that is destroyed already; otherwise it marks
  the stream and \<^verbatim>\<open>'close'\<close> is emitted, once.\<close>

definition destroy :: "readable \<Rightarrow> readable" where
  "destroy s = (if destroyed s then s else s\<lparr>destroyed := True, closes := closes s + 1\<rparr>)"

text \<open>
  \<^verbatim>\<open>endReadable\<close>: the \<^verbatim>\<open>'end'\<close> event is not emitted at once but queued for the next tick
  (\<^verbatim>\<open>process.nextTick(endReadableNT, ...)\<close>), so \<^verbatim>\<open>readableEnded\<close> does not change inside the
  call of \<^verbatim>\<open>read\<close> that drains the stream.
\<close>

definition endReadable :: "readable \<Rightarrow> readable" where
  "endReadable s = (if endEmitted s then s else s\<lparr>endQueued := True\<rparr>)"

text \<open>
  \<^verbatim>\<open>stream.read(n)\<close> in paused mode. \<^verbatim>\<open>howMuchToRead\<close>: nothing when the buffer is empty at
  the end of the stream; \<open>n\<close> bytes when the buffer holds that many; the whole rest when
  the stream has ended with fewer; nothing (\<^verbatim>\<open>null\<close>) while fewer than \<open>n\<close> bytes are
  buffered and the end has not come. Reading past the end calls \<^verbatim>\<open>endReadable\<close>.
\<close>

definition howMuchToRead :: "nat \<Rightarrow> readable \<Rightarrow> nat" where
  "howMuchToRead n s =
     (if n = 0 \<or> (buffered s = [] \<and> ended s) then 0
      else if n \<le> length (buffered s) then n
      else if ended s then length (buffered s) else 0)"

definition read :: "nat \<Rightarrow> readable \<Rightarrow> buffer option \<times> readable" where
  "read n s =
     (let m = howMuchToRead n s in
      if m = 0 then (None, if ended s \<and> buffered s = [] then endReadable s else s)
      else
        (let s' = s\<lparr>buffered := drop m (buffered s)\<rparr>
         in (Some (take m (buffered s)),
             if buffered s' = [] \<and> m \<noteq> n \<and> ended s then endReadable s' else s')))"

text \<open>
  \<^verbatim>\<open>await once(stream, 'readable')\<close>, in the steps the runtime takes, on a stream that has
  not been destroyed (the server waits only on the stream it has just been given).

  The listener is attached (\<^verbatim>\<open>Readable.prototype.on\<close>): when bytes are buffered and \<^verbatim>\<open>'end'\<close>
  has not been emitted, \<^verbatim>\<open>emitReadable\<close> puts a call of \<^verbatim>\<open>emitReadable_\<close> into the tick
  queue.
\<close>

definition on_readable :: "readable \<Rightarrow> readable" where
  "on_readable s =
     (if \<not> endEmitted s \<and> buffered s \<noteq> [] then s\<lparr>readableQueued := True\<rparr> else s)"

text \<open>
  The caller is suspended and the tick queue is run before anything else. A queued
  \<^verbatim>\<open>emitReadable_\<close> emits \<^verbatim>\<open>'readable'\<close> when bytes are buffered or end-of-file has been
  pushed; \<open>True\<close> says that the event was emitted. A queued \<^verbatim>\<open>endReadableNT\<close> emits \<^verbatim>\<open>'end'\<close>
  when the buffer is empty.
\<close>

definition emitReadable_NT :: "readable \<Rightarrow> bool \<times> readable" where
  "emitReadable_NT s =
     (readableQueued s \<and> (buffered s \<noteq> [] \<or> ended s), s\<lparr>readableQueued := False\<rparr>)"

definition endReadableNT :: "readable \<Rightarrow> readable" where
  "endReadableNT s =
     (if endQueued s \<and> \<not> endEmitted s \<and> buffered s = []
      then s\<lparr>endQueued := False, endEmitted := True\<rparr> else s\<lparr>endQueued := False\<rparr>)"

text \<open>
  With the tick queue empty and no event emitted the event loop turns to input: the
  producer pushes its next non-empty chunk, or end-of-file when it has none left, and
  \<^verbatim>\<open>'readable'\<close> is emitted for it. Once end-of-file has been pushed there is no further
  push: \<open>None\<close>.
\<close>

definition next_push :: "readable \<Rightarrow> readable option" where
  "next_push s =
     (case upcoming s of
        None \<Rightarrow> None
      | Some cs \<Rightarrow>
          (case dropWhile (\<lambda>c. c = []) cs of
             [] \<Rightarrow> Some (s\<lparr>upcoming := None\<rparr>)
           | c # rest \<Rightarrow> Some (s\<lparr>buffered := buffered s @ c, upcoming := Some rest\<rparr>)))"

text \<open>
  The promise settles with the first \<^verbatim>\<open>'readable'\<close> event, and the caller goes on after the
  tick queue has been run to its end. \<open>None\<close>: no \<^verbatim>\<open>'readable'\<close> event is ever emitted, the
  promise never settles and the caller is never resumed. When the event comes from the
  tick queue the event loop has not turned to input, so the caller finds the buffer as
  it left it.
\<close>

definition once_readable :: "readable \<Rightarrow> readable option" where
  "once_readable s =
     (case emitReadable_NT (on_readable s) of
        (emitted, s1) \<Rightarrow>
          (let s2 = endReadableNT s1 in
           if emitted then Some s2 else next_push s2))"

text \<open>\<^verbatim>\<open>Buffer.concat(chunks, total)\<close>: the chunks in order, cut or zero-filled to \<open>total'\<close>
  bytes.\<close>

definition Buffer_concat :: "buffer list \<Rightarrow> nat \<Rightarrow> buffer" where
  "Buffer_concat chunks total' =
     take total' (concat chunks) @ replicate (total' - length (concat chunks)) 0"

text \<open>
  \<^verbatim>\<open>readHead(stream, size)\<close>: the loop, with its variables \<open>total'\<close> and \<open>chunks\<close>
  (\<open>size'\<close> and \<open>total'\<close> are the source's \<^verbatim>\<open>size\<close> and \<^verbatim>\<open>total\<close>). The loop need not
  end: the result is \<open>None\<close> when the function is suspended and never resumed, and when
  it goes round for ever.
\<close>

partial_function (option) readHead_loop ::
  "readable \<Rightarrow> nat \<Rightarrow> nat \<Rightarrow> buffer list \<Rightarrow> (buffer \<times> readable) option" where
  "readHead_loop stream size' total' chunks =
     (if total' < size' then
        (case read (size' - total') stream of
           (Some chunk, stream') \<Rightarrow>
             readHead_loop stream' size' (total' + length chunk) (chunks @ [chunk])
         | (None, stream') \<Rightarrow>
             if readableEnded stream' then Some (Buffer_concat chunks total', stream')
             else (case once_readable stream' of
                     None \<Rightarrow> None
                   | Some stream'' \<Rightarrow> readHead_loop stream'' size' total' chunks))
      else Some (Buffer_concat chunks total', stream))"

declare readHead_loop.simps [code]

definition readHead :: "readable \<Rightarrow> nat \<Rightarrow> (buffer \<times> readable) option" where
  "readHead stream size' = readHead_loop stream size' 0 []"

text \<open>
  Two conditions on the state of the loop that the loop keeps once it is in them.
  \<open>short_inv\<close>: \<^verbatim>\<open>'end'\<close> has not been emitted, no \<^verbatim>\<open>'readable'\<close> event is queued, and what
  the stream holds and will receive does not fill the buffer asked for. \<open>partial_inv\<close>:
  end-of-file has not been pushed, and some bytes are buffered but not enough.
\<close>

definition short_inv :: "readable \<Rightarrow> nat \<Rightarrow> nat \<Rightarrow> bool" where
  "short_inv s n t \<longleftrightarrow>
     \<not> endEmitted s \<and> \<not> readableQueued s
     \<and> (endQueued s \<longrightarrow> upcoming s = None \<and> buffered s = [])
     \<and> t + length (all_bytes s) < n"

definition partial_inv :: "readable \<Rightarrow> nat \<Rightarrow> nat \<Rightarrow> bool" where
  "partial_inv s n t \<longleftrightarrow>
     \<not> endEmitted s \<and> upcoming s \<noteq> None \<and> buffered s \<noteq> [] \<and> t + length (buffered s) < n"

section \<open>The conversion pipeline\<close>

text \<open>
  \<^verbatim>\<open>bodyStream\<close> is a \<^verbatim>\<open>PassThrough\<close>: \<open>written\<close> holds the bytes written to it, in order,
  which are the bytes its reader gets; \<open>finished\<close> says that \<^verbatim>\<open>end()\<close> was called.
  \<open>body_write\<close> is its \<^verbatim>\<open>write\<close>.
\<close>

record passThrough =
  written :: buffer
  finished :: bool
  body_destroyed :: bool
  body_closes :: nat

definition new_PassThrough :: passThrough where
  "new_PassThrough = \<lparr>written = [], finished = False, body_destroyed = False, body_closes = 0\<rparr>"

definition body_write :: "buffer \<Rightarrow> passThrough \<Rightarrow> passThrough" where
  "body_write chunk body =
     (if finished body \<or> body_destroyed body then body
      else body\<lparr>written := written body @ chunk\<rparr>)"

definition end_body :: "passThrough \<Rightarrow> passThrough" where
  "end_body body = body\<lparr>finished := True\<rparr>"

definition destroy_body :: "passThrough \<Rightarrow> passThrough" where
  "destroy_body body =
     (if body_destroyed body then body
      else body\<lparr>body_destroyed := True, body_closes := body_closes body + 1\<rparr>)"

text \<open>The calls a request makes on its streams and on the transformer, in the order in
  which it makes them.\<close>

datatype call =
    Request_file | Pause | ReadHead | DetectMagic | Destroy_source
  | New_PassThrough | Write_head | Pipe_source_body | Resume
  | Sharp | Rotate | WithMetadata | ApplyOutputFormat | Pipe_body_transformer | On_close

text \<open>
  What \<^verbatim>\<open>createConvertedStream\<close> returns, \<^verbatim>\<open>{ stream, contentType, cleanup }\<close>, together with
  the streams its \<^verbatim>\<open>cleanup\<close> closure has captured. \<open>stream\<close> says which stream is handed
  out: \<^verbatim>\<open>bodyStream\<close> itself or \<^verbatim>\<open>bodyStream.pipe(transformer)\<close>. Inside the function
  the source's variables \<^verbatim>\<open>sourceStream\<close>, \<^verbatim>\<open>bodyStream\<close> and \<^verbatim>\<open>transformer\<close> are \<open>source\<close>,
  \<open>body\<close> and \<open>sharp\<close>.
\<close>

datatype handed_out = Body_stream | Transformer_stream

record conversion =
  sourceStream :: readable
  bodyStream :: passThrough
  piped :: bool
  transformer :: "sharp option"
  stream :: handed_out
  contentType :: jsstring

record httpError =
  statusCode :: nat
  message :: jsstring

text \<open>\<open>Throws e s\<close>: an \<^verbatim>\<open>HttpError\<close> is thrown and the source stream is left as \<open>s\<close>.\<close>

datatype result = Throws httpError readable | Returns conversion

definition createConvertedStream ::
  "readable \<Rightarrow> jsstring \<Rightarrow> bool \<Rightarrow> (call list \<times> result) option" where
  "createConvertedStream fileStream format keepMetadata =
     (case readHead (pause fileStream) 4100 of
        None \<Rightarrow> None
      | Some (head, source) \<Rightarrow>
          (let magic = detectMagic head in
           if \<not> valid magic then
             Some ([Pause, ReadHead, DetectMagic, Destroy_source],
                   Throws \<lparr>statusCode = 415,
                           message = lit ''Unsupported or invalid image signature''\<rparr>
                          (destroy source))
           else if format = lit ''svg'' \<and> kind magic \<noteq> lit ''svg'' then
             Some ([Pause, ReadHead, DetectMagic, Destroy_source],
                   Throws \<lparr>statusCode = 415,
                           message = lit ''SVG output only supported for SVG inputs''\<rparr>
                          (destroy source))
           else
             (let body = body_write head new_PassThrough;
                  source = resume source;
                  calls = [Pause, ReadHead, DetectMagic, New_PassThrough, Write_head,
                           Pipe_source_body, Resume]
              in if format = lit ''svg'' then
                   Some (calls,
                         Returns \<lparr>sourceStream = source, bodyStream = body,
                                  piped = True, transformer = None, stream = Body_stream,
                                  contentType = lit ''image/svg+xml''\<rparr>)
                 else
                   (let sharp = \<lparr>failOnError = False, sequentialRead = True,
                                  rotated = True, metadata = False, encoder = None\<rparr>;
                        sharp = (if keepMetadata then sharp\<lparr>metadata := True\<rparr> else sharp);
                        sharp = applyOutputFormat sharp format
                    in Some (calls @ [Sharp, Rotate]
                               @ (if keepMetadata then [WithMetadata] else [])
                               @ [ApplyOutputFormat, Pipe_body_transformer],
                             Returns \<lparr>sourceStream = source, bodyStream = body,
                                      piped = True, transformer = Some sharp,
                                      stream = Transformer_stream,
                                      contentType = contentTypeForFormat format\<rparr>)))))"

text \<open>The \<^verbatim>\<open>cleanup\<close> closure: \<^verbatim>\<open>sourceStream.destroy(); bodyStream.destroy();\<close>\<close>

definition cleanup :: "conversion \<Rightarrow> conversion" where
  "cleanup c = c\<lparr>sourceStream := destroy (sourceStream c),
                 bodyStream := destroy_body (bodyStream c)\<rparr>"

text \<open>
  After \<^verbatim>\<open>sourceStream.pipe(bodyStream)\<close> and \<^verbatim>\<open>sourceStream.resume()\<close> the source flows:
  what it has buffered and every chunk the producer still pushes is written to
  \<^verbatim>\<open>bodyStream\<close> in order, and the end of the source ends \<^verbatim>\<open>bodyStream\<close>.
\<close>

fun flow :: "buffer list \<Rightarrow> passThrough \<Rightarrow> passThrough" where
  "flow [] body = end_body body"
| "flow (chunk # chunks) body = flow chunks (body_write chunk body)"

definition run_pipe :: "conversion \<Rightarrow> conversion" where
  "run_pipe c =
     (let source = sourceStream c in
      if piped c \<and> \<not> paused source \<and> \<not> destroyed source then
        c\<lparr>bodyStream :=
             flow (buffered source # (case upcoming source of None \<Rightarrow> [] | Some cs \<Rightarrow> cs))
                  (bodyStream c),
           sourceStream :=
             source\<lparr>buffered := [], upcoming := None, endQueued := False, endEmitted := True\<rparr>\<rparr>
      else c)"

section \<open>The \<^verbatim>\<open>/convert\<close> route\<close>

text \<open>
  A request as the framework hands it over: the two query parameters (\<open>None\<close> when the
  parameter is absent) and the file part of the multipart body, if there is one.
\<close>

record request =
  query_format :: "jsstring option"
  query_keepMetadata :: "jsstring option"
  file_part :: "readable option"

text \<open>\<^verbatim>\<open>(request.query?.format || 'avif').toString().toLowerCase()\<close>; the empty string is
  falsy.\<close>

definition request_format :: "request \<Rightarrow> jsstring" where
  "request_format request =
     toLowerCase (case query_format request of
                    None \<Rightarrow> lit ''avif''
                  | Some v \<Rightarrow> if v = [] then lit ''avif'' else v)"

text \<open>\<^verbatim>\<open>request.query?.keepMetadata?.toString().toLowerCase() === '1'\<close>\<close>

definition request_keepMetadata :: "request \<Rightarrow> bool" where
  "request_keepMetadata request =
     (case query_keepMetadata request of
        None \<Rightarrow> False
      | Some v \<Rightarrow> toLowerCase v = lit ''1'')"

datatype payload = Json_error jsstring | Send handed_out

record reply =
  code :: nat
  content_type :: "jsstring option"
  content_disposition :: "jsstring option"
  payload :: payload

text \<open>What has become of the request's streams when the handler returns.\<close>

datatype streams = Untouched | Rejected readable | Serving conversion

definition json_error :: "nat \<Rightarrow> jsstring \<Rightarrow> reply" where
  "json_error status msg =
     \<lparr>code = status, content_type = None, content_disposition = None,
      payload = Json_error msg\<rparr>"

text \<open>The handler of \<^verbatim>\<open>POST /convert\<close> in \<^verbatim>\<open>server.js\<close>. \<open>None\<close>: the handler is suspended
  for ever and no reply is sent.\<close>

definition convert :: "request \<Rightarrow> (reply \<times> call list \<times> streams) option" where
  "convert request =
     (let format = request_format request;
          keepMetadata = request_keepMetadata request
      in if \<not> isAllowedFormat format then
           Some (json_error 400
                   (lit ''Unsupported format. Use one of: avif, webp, png, jpeg, jpg, svg.''),
                 [], Untouched)
         else
           (case file_part request of
              None \<Rightarrow> Some (json_error 400 (lit ''No file uploaded''), [Request_file], Untouched)
            | Some fileStream \<Rightarrow>
                (case createConvertedStream fileStream format keepMetadata of
                   None \<Rightarrow> None
                 | Some (calls, Throws error source) \<Rightarrow>
                     Some (json_error (statusCode error) (message error),
                           Request_file # calls, Rejected source)
                 | Some (calls, Returns converted) \<Rightarrow>
                     Some (\<lparr>code = 200, content_type = Some (contentType converted),
                            content_disposition =
                              Some (lit ''inline; filename=\"converted.'' @ format @ lit ''\"''),
                            payload = Send (stream converted)\<rparr>,
                           Request_file # calls @ [On_close], Serving converted))))"

text \<open>
  The handler of \<^verbatim>\<open>POST /convert\<close> in the variant of the server without the upload
  routes. It does inline what \<^verbatim>\<open>createConvertedStream\<close> does, registers the close handler
  (which destroys the source stream and the body stream, as \<open>cleanup\<close> does) before it
  builds the transformer, and sends an SVG without a \<^verbatim>\<open>Content-Disposition\<close> header.
\<close>

definition convert_standalone :: "request \<Rightarrow> (reply \<times> call list \<times> streams) option" where
  "convert_standalone request =
     (let format = request_format request;
          keepMetadata = request_keepMetadata request
      in if \<not> isAllowedFormat format then
           Some (json_error 400
                   (lit ''Unsupported format. Use one of: avif, webp, png, jpeg, jpg, svg.''),
                 [], Untouched)
         else
           (case file_part request of
              None \<Rightarrow> Some (json_error 400 (lit ''No file uploaded''), [Request_file], Untouched)
            | Some fileStream \<Rightarrow>
                (case readHead (pause fileStream) 4100 of
                   None \<Rightarrow> None
                 | Some (head, source) \<Rightarrow>
                     (let magic = detectMagic head in
                      if \<not> valid magic then
                        Some (json_error 415 (lit ''Unsupported or invalid image signature''),
                              [Request_file, Pause, ReadHead, DetectMagic, Destroy_source],
                              Rejected (destroy source))
                      else if format = lit ''svg'' \<and> kind magic \<noteq> lit ''svg'' then
                        Some (json_error 415 (lit ''SVG output only supported for SVG inputs''),
                              [Request_file, Pause, ReadHead, DetectMagic, Destroy_source],
                              Rejected (destroy source))
                      else
                        (let body = body_write head new_PassThrough;
                             source = resume source;
                             calls = [Request_file, Pause, ReadHead, DetectMagic,
                                      New_PassThrough, Write_head, Pipe_source_body, Resume,
                                      On_close]
                         in if format = lit ''svg'' then
                              Some (\<lparr>code = 200, content_type = Some (lit ''image/svg+xml''),
                                     content_disposition = None, payload = Send Body_stream\<rparr>,
                                    calls,
                                    Serving \<lparr>sourceStream = source, bodyStream = body,
                                       piped = True, transformer = None, stream = Body_stream,
                                       contentType = lit ''image/svg+xml''\<rparr>)
                            else
                              (let sharp = \<lparr>failOnError = False, sequentialRead = True,
                                             rotated = True, metadata = False, encoder = None\<rparr>;
                                   sharp = (if keepMetadata then sharp\<lparr>metadata := True\<rparr>
                                            else sharp);
                                   sharp = applyOutputFormat sharp format
                               in Some (\<lparr>code = 200,
                                          content_type = Some (contentTypeForFormat format),
                                          content_disposition =
                                            Some (lit ''inline; filename=\"converted.'' @ format
                                                  @ lit ''\"''),
                                          payload = Send Transformer_stream\<rparr>,
                                        calls @ [Sharp, Rotate]
                                          @ (if keepMetadata then [WithMetadata] else [])
                                          @ [ApplyOutputFormat, Pipe_body_transformer],
                                        Serving \<lparr>sourceStream = source, bodyStream = body,
                                           piped = True, transformer = Some sharp,
                                           stream = Transformer_stream,
                                           contentType = contentTypeForFormat format\<rparr>)))))))"

text \<open>Two outcomes that agree in everything but the \<^verbatim>\<open>Content-Disposition\<close> header and the
  order of the calls.\<close>

definition same_outcome ::
  "(reply \<times> call list \<times> streams) option \<Rightarrow> (reply \<times> call list \<times> streams) option \<Rightarrow> bool" where
  "same_outcome a b =
     (map_option (\<lambda>(r, cs, st). (r\<lparr>content_disposition := None\<rparr>, set cs, st)) a
      = map_option (\<lambda>(r, cs, st). (r\<lparr>content_disposition := None\<rparr>, set cs, st)) b)"

section \<open>The format policy of the specification\<close>


section \<open>Example uploads\<close>

text \<open>
  \<open>upload content\<close> is a file part whose whole content, followed by end-of-file, has been
  pushed into the stream in an earlier tick than the one in which the handler looks at
  it, so that the \<^verbatim>\<open>'readable'\<close> event of these pushes is no longer queued; this is how a
  file that fits into the first chunk of the request body arrives.
\<close>

definition upload :: "buffer \<Rightarrow> readable" where
  "upload content =
     \<lparr>buffered = content, upcoming = None, readableQueued = False, endQueued = False,
      endEmitted = False, paused = False, destroyed = False, closes = 0\<rparr>"

definition png_upload :: readable where
  "png_upload = upload (png_signature @ replicate 4092 0)"

definition jpeg_upload :: readable where
  "jpeg_upload = upload ([0xFF, 0xD8, 0xFF] @ replicate 4097 0)"

definition svg_upload :: readable where
  "svg_upload = upload (ascii_bytes ''<svg/>'')"


text \<open>Two uploads shorter than the head: eleven bytes of text, and the eight bytes of the
  PNG signature.\<close>

definition text_upload :: readable where
  "text_upload = upload (ascii_bytes ''hello world'')"

definition short_png_upload :: readable where
  "short_png_upload = upload png_signature"

text \<open>\<open>late_upload content\<close> is a file part of which nothing has arrived yet: the content
  is pushed, and then end-of-file, while the handler waits.\<close>

definition late_upload :: "buffer \<Rightarrow> readable" where
  "late_upload content =
     \<lparr>buffered = [], upcoming = Some [content], readableQueued = False, endQueued = False,
      endEmitted = False, paused = False, destroyed = False, closes = 0\<rparr>"

text \<open>Twelve bytes that spell \<open>RIFF....WEBP\<close> only after the highest bit of the first byte
  (\<open>0xD2\<close> instead of \<open>0x52\<close>) is dropped.\<close>

definition high_bit_riff :: buffer where
  "high_bit_riff = [0xD2, 0x49, 0x46, 0x46, 0, 0, 0, 0, 0x57, 0x45, 0x42, 0x50]"

section \<open>Auxiliary facts\<close>

subsection \<open>Strings and signatures\<close>

lemma lit_eq_iff [simp]: "lit a = lit b \<longleftrightarrow> a = b"
  unfolding lit_def by (rule inj_map_eq_map) (rule inj_of_char)

lemma lit_Nil [simp]: "lit [] = []"
  by (simp add: lit_def)

lemma toLowerCase_Nil_iff [simp]: "toLowerCase v = [] \<longleftrightarrow> v = []"
  by (simp add: toLowerCase_def)

lemma toLowerCase_one_iff: "toLowerCase v = lit ''1'' \<longleftrightarrow> v = lit ''1''"
  by (cases v) (auto simp: toLowerCase_def lit_def)

lemma js_includes_hd: "js_includes s p \<Longrightarrow> p \<noteq> [] \<Longrightarrow> hd p \<in> set s"
proof (induction s)
  case Nil
  then show ?case by simp
next
  case (Cons x xs)
  then show ?case
    by (cases p) (auto simp: startsWith_def)
qed

lemma utf8_decode_zeros: "utf8_decode None (replicate n 0) = replicate n 0"
  by (induction n) (simp_all add: utf8_lead_def)

lemma replicate_12: "replicate 12 x = [x, x, x, x, x, x, x, x, x, x, x, x]"
  by (simp add: numeral_eq_Suc)

lemma detectMagic_cases:
  "detectMagic b \<in> {\<lparr>valid = True, kind = lit ''png''\<rparr>, \<lparr>valid = True, kind = lit ''jpeg''\<rparr>,
     \<lparr>valid = True, kind = lit ''webp''\<rparr>, \<lparr>valid = True, kind = lit ''avif''\<rparr>,
     \<lparr>valid = True, kind = lit ''gif''\<rparr>, \<lparr>valid = True, kind = lit ''svg''\<rparr>,
     \<lparr>valid = False, kind = lit ''unknown''\<rparr>}"
  unfolding detectMagic_def Let_def by simp

lemma detectMagic_zeros:
  assumes "12 \<le> n"
  shows "detectMagic (replicate n 0) = \<lparr>valid = False, kind = lit ''unknown''\<rparr>"
proof -
  from assms have "js_slice 0 12 (replicate n (0::byte)) = replicate 12 0"
    by (simp add: js_slice_def min_def)
  then have h: "js_slice 0 12 (replicate n (0::byte)) = [0, 0, 0, 0, 0, 0, 0, 0, 0, 0, 0, 0]"
    by (simp only: replicate_12)
  from assms have "js_slice 0 8 (replicate n (0::byte)) = take 8 (replicate 12 0)"
    by (simp add: js_slice_def min_def)
  then have p: "js_slice 0 8 (replicate n (0::byte)) \<noteq> png_signature"
    by (simp add: replicate_12 png_signature_def)
  from assms have j: "buf_at (replicate n 0) 0 = Some 0"
    by (simp add: buf_at_def)
  have u: "\<not> js_includes (toLowerCase (toString_utf8 (replicate n 0))) (lit ''<svg'')"
  proof
    assume "js_includes (toLowerCase (toString_utf8 (replicate n 0))) (lit ''<svg'')"
    from js_includes_hd [OF this] show False
      by (simp add: toString_utf8_def utf8_decode_zeros toLowerCase_def lit_def)
  qed
  let ?ascii = "toString_ascii [0, 0, 0, 0, 0, 0, 0, 0, 0, 0, 0, 0]"
  have a: "\<not> startsWith ?ascii (lit ''RIFF'')"
    "\<not> js_includes (js_slice 4 12 ?ascii) (lit ''ftypavif'')"
    "\<not> js_includes (js_slice 4 12 ?ascii) (lit ''ftypavis'')"
    "\<not> startsWith ?ascii (lit ''GIF87a'')" "\<not> startsWith ?ascii (lit ''GIF89a'')"
    by (simp_all add: toString_ascii_def startsWith_def js_slice_def lit_def)
  show ?thesis
    unfolding detectMagic_def Let_def h
    by (simp add: p j u a)
qed

lemma detectMagic_png_prefix:
  "detectMagic (png_signature @ rest) = \<lparr>valid = True, kind = lit ''png''\<rparr>"
proof -
  have "length (png_signature @ rest) \<ge> 8 \<and> js_slice 0 8 (png_signature @ rest) = png_signature"
    by (simp add: png_signature_def js_slice_def)
  then show ?thesis
    unfolding detectMagic_def Let_def by simp
qed

lemma detectMagic_jpeg_prefix:
  "detectMagic (0xFF # 0xD8 # 0xFF # rest) = \<lparr>valid = True, kind = lit ''jpeg''\<rparr>"
proof -
  have "js_slice 0 8 (0xFF # 0xD8 # 0xFF # rest) \<noteq> png_signature"
    by (simp add: png_signature_def js_slice_def)
  moreover have "buf_at (0xFF # 0xD8 # 0xFF # rest) 0 = Some 0xFF"
    "buf_at (0xFF # 0xD8 # 0xFF # rest) 1 = Some 0xD8"
    "buf_at (0xFF # 0xD8 # 0xFF # rest) 2 = Some 0xFF"
    by (simp_all add: buf_at_def)
  ultimately show ?thesis
    unfolding detectMagic_def Let_def by simp
qed




lemma detectMagic_hello:
  "detectMagic (ascii_bytes ''hello world'') = \<lparr>valid = False, kind = lit ''unknown''\<rparr>"
  by (simp add: detectMagic_def Let_def ascii_bytes_def js_slice_def png_signature_def buf_at_def
      toString_ascii_def startsWith_def lit_def toString_utf8_def utf8_lead_def toLowerCase_def)

text \<open>
  \<^verbatim>\<open>detectMagic\<close> is the rule list of the specification read through \<open>clear_high_bits\<close>:
  the priority order, the PNG, JPEG and SVG rules and the fallback are the specification's;
  the WEBP, AVIF and GIF rules see every header byte without its highest bit.
\<close>

lemma unat_of_char_byte: "unat (of_char c :: byte) = of_char c"
proof -
  have "(of_char c :: byte) = of_nat (of_char c)"
    by (simp add: of_nat_of_char)
  then have "unat (of_char c :: byte) = (of_char c :: nat) mod 256"
    by (simp only: unat_of_nat) simp
  then show ?thesis by simp
qed

lemma lit_ascii_bytes: "lit s = map unat (ascii_bytes s)"
  by (simp add: lit_def ascii_bytes_def unat_of_char_byte)

lemma toString_ascii_clear: "toString_ascii b = map unat (clear_high_bits b)"
  by (simp add: toString_ascii_def clear_high_bits_def)

lemma map_unat_eq: "map unat (xs :: buffer) = map unat ys \<longleftrightarrow> xs = ys"
  by (rule inj_map_eq_map) (simp add: inj_on_def word_unat_eq_iff)

lemma js_slice_map: "js_slice a b (map f xs) = map f (js_slice a b xs)"
  by (simp add: js_slice_def take_map drop_map)

lemma startsWith_map_unat:
  "startsWith (map unat (xs :: buffer)) (map unat p) \<longleftrightarrow> startsWith xs p"
proof -
  have "take (length p) (map unat xs) = map unat (take (length p) xs)"
    by (simp add: take_map)
  then show ?thesis
    by (simp add: startsWith_def map_unat_eq)
qed

lemma js_includes_map_unat:
  "js_includes (map unat (xs :: buffer)) (map unat p) \<longleftrightarrow> js_includes xs p"
proof (induction xs)
  case Nil
  show ?case by simp
next
  case (Cons x xs)
  have "startsWith (map unat (x # xs)) (map unat p) \<longleftrightarrow> startsWith (x # xs) p"
    by (rule startsWith_map_unat)
  with Cons show ?case by simp
qed

lemma png_rule: "(length b \<ge> 8 \<and> js_slice 0 8 b = png_signature) = (js_slice 0 8 b = png_signature)"
proof -
  have "length b \<ge> 8" if "js_slice 0 8 b = png_signature"
  proof -
    from that have "length (js_slice 0 8 b) = 8"
      by (simp add: png_signature_def)
    then show ?thesis by (simp add: js_slice_def)
  qed
  then show ?thesis by blast
qed

lemma jpeg_rule:
  "(length b \<ge> 3 \<and> buf_at b 0 = Some 0xFF \<and> buf_at b 1 = Some 0xD8 \<and> buf_at b 2 = Some 0xFF)
   = (js_slice 0 3 b = [0xFF, 0xD8, 0xFF])"
proof (cases b)
  case Nil
  then show ?thesis by (simp add: js_slice_def)
next
  case (Cons x xs)
  note b1 = this
  show ?thesis
  proof (cases xs)
    case Nil
    with b1 show ?thesis by (simp add: js_slice_def)
  next
    case (Cons y ys)
    note b2 = this
    show ?thesis
    proof (cases ys)
      case Nil
      with b1 b2 show ?thesis by (simp add: js_slice_def)
    next
      case (Cons z zs)
      with b1 b2 show ?thesis by (auto simp: js_slice_def buf_at_def)
    qed
  qed
qed

lemma detectMagic_rules: "detectMagic b = signature_rules clear_high_bits b"
proof -
  let ?h = "clear_high_bits (js_slice 0 12 b)"
  have len: "length (ascii_bytes ''RIFF'') = 4"
    by (simp add: ascii_bytes_def)
  have r: "startsWith ?h (ascii_bytes ''RIFF'') = (js_slice 0 4 ?h = ascii_bytes ''RIFF'')"
    unfolding startsWith_def js_slice_def len by simp
  have a: "startsWith (map unat ?h) (lit ''RIFF'') = (js_slice 0 4 ?h = ascii_bytes ''RIFF'')"
    "(js_slice 8 12 (map unat ?h) = lit ''WEBP'') = (js_slice 8 12 ?h = ascii_bytes ''WEBP'')"
    "js_includes (js_slice 4 12 (map unat ?h)) (lit s) = js_includes (js_slice 4 12 ?h) (ascii_bytes s)"
    "startsWith (map unat ?h) (lit s) = startsWith ?h (ascii_bytes s)" for s
    unfolding lit_ascii_bytes js_slice_map
    by (simp_all only: startsWith_map_unat js_includes_map_unat map_unat_eq r)
  show ?thesis
    unfolding detectMagic_def signature_rules_def Let_def toString_ascii_clear png_rule jpeg_rule a
    by (simp only: r)
qed

subsection \<open>Reading the head\<close>

text \<open>
  Whatever \<^verbatim>\<open>readHead\<close> returns is a prefix of the stream of at most \<open>size'\<close> bytes, and
  the stream it leaves behind holds exactly the rest: no byte is lost or repeated.
\<close>

lemma Buffer_concat_exact:
  "total' = length (concat chunks) \<Longrightarrow> Buffer_concat chunks total' = concat chunks"
  by (simp add: Buffer_concat_def)

lemma read_Some_bytes: "read n s = (Some chunk, s') \<Longrightarrow> chunk @ all_bytes s' = all_bytes s"
  by (auto simp: read_def howMuchToRead_def Let_def all_bytes_def endReadable_def ended_def
      split: if_splits)

lemma read_None_bytes: "read n s = (None, s') \<Longrightarrow> all_bytes s' = all_bytes s"
  by (auto simp: read_def howMuchToRead_def Let_def all_bytes_def endReadable_def
      split: if_splits)

lemma concat_dropWhile_empty: "concat (dropWhile (\<lambda>c. c = []) cs) = concat cs"
  by (induction cs) auto

lemma next_push_bytes:
  assumes "next_push s = Some s'"
  shows "all_bytes s' = all_bytes s"
proof -
  from assms obtain cs where u: "upcoming s = Some cs"
    by (auto simp: next_push_def split: option.splits)
  show ?thesis
  proof (cases "dropWhile (\<lambda>c. c = []) cs")
    case Nil
    with assms u have s': "s' = s\<lparr>upcoming := None\<rparr>"
      by (simp add: next_push_def)
    from Nil concat_dropWhile_empty [of cs] have "concat cs = []" by simp
    with s' u show ?thesis
      by (simp add: all_bytes_def)
  next
    case (Cons c rest)
    with assms u have s': "s' = s\<lparr>buffered := buffered s @ c, upcoming := Some rest\<rparr>"
      by (simp add: next_push_def)
    from Cons concat_dropWhile_empty [of cs] have "concat cs = c @ concat rest" by simp
    with s' u show ?thesis
      by (simp add: all_bytes_def)
  qed
qed

lemma tick_queue_bytes:
  "all_bytes (endReadableNT (snd (emitReadable_NT (on_readable s)))) = all_bytes s"
  by (simp add: endReadableNT_def emitReadable_NT_def on_readable_def all_bytes_def)

lemma once_readable_bytes:
  assumes "once_readable s = Some s'"
  shows "all_bytes s' = all_bytes s"
proof -
  let ?s2 = "endReadableNT (snd (emitReadable_NT (on_readable s)))"
  from assms have "s' = ?s2 \<or> next_push ?s2 = Some s'"
    by (auto simp: once_readable_def Let_def split: prod.splits if_splits)
  with next_push_bytes [of ?s2 s'] tick_queue_bytes [of s] show ?thesis
    by auto
qed

lemma read_chunk_length:
  "read n s = (Some chunk, s') \<Longrightarrow> 0 < length chunk \<and> length chunk \<le> n"
  by (auto simp: read_def howMuchToRead_def Let_def split: if_splits)

lemma read_flags:
  "read n s = (r, s') \<Longrightarrow> destroyed s' = destroyed s \<and> paused s' = paused s
     \<and> closes s' = closes s"
  by (auto simp: read_def howMuchToRead_def Let_def endReadable_def split: if_splits)

lemma once_readable_flags:
  "once_readable s = Some s' \<Longrightarrow> destroyed s' = destroyed s \<and> paused s' = paused s
     \<and> closes s' = closes s"
  by (auto simp: once_readable_def Let_def endReadableNT_def emitReadable_NT_def
      on_readable_def next_push_def split: option.splits list.splits if_splits)

lemma readHead_loop_prefix:
  assumes "readHead_loop s n t ch = Some y"
  shows "t = length (concat ch) \<longrightarrow>
     fst y @ all_bytes (snd y) = concat ch @ all_bytes s \<and> length (fst y) \<le> max n t
     \<and> destroyed (snd y) = destroyed s \<and> paused (snd y) = paused s"
proof (rule readHead_loop.raw_induct [where P = "\<lambda>s n t ch y. t = length (concat ch) \<longrightarrow>
     fst y @ all_bytes (snd y) = concat ch @ all_bytes s \<and> length (fst y) \<le> max n t
     \<and> destroyed (snd y) = destroyed s \<and> paused (snd y) = paused s", OF _ assms], goal_cases)
  case (1 loop stream size' total' chunks y)
  note IH = 1(1) and res = 1(2)
  show ?case
  proof
    assume tot: "total' = length (concat chunks)"
    show "fst y @ all_bytes (snd y) = concat chunks @ all_bytes stream
        \<and> length (fst y) \<le> max size' total'
        \<and> destroyed (snd y) = destroyed stream \<and> paused (snd y) = paused stream"
    proof (cases "total' < size'")
      case False
      with res have "y = (Buffer_concat chunks total', stream)"
        by simp
      with tot False show ?thesis
        by (simp add: Buffer_concat_exact)
    next
      case True
      obtain r stream' where rd: "read (size' - total') stream = (r, stream')"
        by (cases "read (size' - total') stream")
      show ?thesis
      proof (cases r)
        case (Some chunk)
        with rd have rd': "read (size' - total') stream = (Some chunk, stream')" by simp
        from res True rd'
        have rec: "loop stream' size' (total' + length chunk) (chunks @ [chunk]) = Some y"
          by simp
        from tot have tot': "total' + length chunk = length (concat (chunks @ [chunk]))"
          by simp
        from IH [OF rec] tot'
        have ih: "fst y @ all_bytes (snd y) = concat (chunks @ [chunk]) @ all_bytes stream'
              \<and> length (fst y) \<le> max size' (total' + length chunk)
              \<and> destroyed (snd y) = destroyed stream' \<and> paused (snd y) = paused stream'"
          by blast
        from read_chunk_length [OF rd'] True
        have "max size' (total' + length chunk) = size'" by auto
        with ih read_Some_bytes [OF rd'] read_flags [OF rd'] True
        show ?thesis by (simp add: max_def)
      next
        case None
        with rd have rd': "read (size' - total') stream = (None, stream')" by simp
        show ?thesis
        proof (cases "readableEnded stream'")
          case True
          with res \<open>total' < size'\<close> rd'
          have "y = (Buffer_concat chunks total', stream')"
            by simp
          with tot read_None_bytes [OF rd'] read_flags [OF rd']
          show ?thesis
            by (simp add: Buffer_concat_exact)
        next
          case False
          show ?thesis
          proof (cases "once_readable stream'")
            case None
            with res rd' False \<open>total' < size'\<close> show ?thesis
              by simp
          next
            case (Some stream'')
            with res rd' False \<open>total' < size'\<close>
            have rec: "loop stream'' size' total' chunks = Some y"
              by simp
            from IH [OF rec] tot
            have ih: "fst y @ all_bytes (snd y) = concat chunks @ all_bytes stream''
                  \<and> length (fst y) \<le> max size' total'
                  \<and> destroyed (snd y) = destroyed stream'' \<and> paused (snd y) = paused stream''"
              by blast
            with once_readable_bytes [OF Some] read_None_bytes [OF rd']
              once_readable_flags [OF Some] read_flags [OF rd']
            show ?thesis by simp
          qed
        qed
      qed
    qed
  qed
qed

lemma readHead_prefix:
  assumes "readHead s n = Some (head, s')"
  shows "head @ all_bytes s' = all_bytes s \<and> length head \<le> n
         \<and> destroyed s' = destroyed s \<and> paused s' = paused s"
  using readHead_loop_prefix [of s n 0 "[]" "(head, s')"] assms by (simp add: readHead_def)

lemma readHead_buffered:
  assumes "0 < n" "n \<le> length (buffered s)"
  shows "readHead s n = Some (take n (buffered s), s\<lparr>buffered := drop n (buffered s)\<rparr>)"
proof -
  from assms have rd: "read n s = (Some (take n (buffered s)), s\<lparr>buffered := drop n (buffered s)\<rparr>)"
    by (auto simp: read_def howMuchToRead_def Let_def)
  from assms have len: "length (take n (buffered s)) = n" by simp
  show ?thesis
    unfolding readHead_def
    by (subst readHead_loop.simps, simp add: assms rd del: length_take,
        subst readHead_loop.simps, simp add: len Buffer_concat_def del: length_take)
qed

lemma readHead_upload:
  "length content \<ge> 4100 \<Longrightarrow>
   readHead (pause (upload content)) 4100
   = Some (take 4100 content, (pause (upload content))\<lparr>buffered := drop 4100 content\<rparr>)"
  using readHead_buffered [of 4100 "pause (upload content)"]
  by (simp add: pause_def upload_def)

lemma readHead_png_upload:
  "readHead (pause png_upload) 4100
   = Some (png_signature @ replicate 4092 0, (pause png_upload)\<lparr>buffered := []\<rparr>)"
  unfolding png_upload_def
  using readHead_upload [of "png_signature @ replicate 4092 0"]
  by (simp add: png_signature_def)

lemma readHead_jpeg_upload:
  "readHead (pause jpeg_upload) 4100
   = Some ([0xFF, 0xD8, 0xFF] @ replicate 4097 0, (pause jpeg_upload)\<lparr>buffered := []\<rparr>)"
  unfolding jpeg_upload_def
  using readHead_upload [of "[0xFF, 0xD8, 0xFF] @ replicate 4097 0"]
  by simp


lemma readHead_late_upload:
  assumes "4100 \<le> length content"
  shows "readHead (pause (late_upload content)) 4100
   = Some (take 4100 content,
           (pause (late_upload content))\<lparr>buffered := drop 4100 content, upcoming := Some []\<rparr>)"
proof -
  let ?s = "pause (late_upload content)"
  let ?s' = "?s\<lparr>buffered := content, upcoming := Some []\<rparr>"
  from assms have ne: "content \<noteq> []" by auto
  have rd: "read 4100 ?s = (None, ?s)"
    by (simp add: read_def howMuchToRead_def ended_def pause_def late_upload_def Let_def)
  have re: "\<not> readableEnded ?s"
    by (simp add: readableEnded_def pause_def late_upload_def)
  from ne have o: "once_readable ?s = Some ?s'"
    by (simp add: once_readable_def on_readable_def emitReadable_NT_def endReadableNT_def
        next_push_def pause_def late_upload_def Let_def)
  have "readHead ?s 4100 = readHead ?s' 4100"
    unfolding readHead_def
    by (subst readHead_loop.simps) (simp add: rd re o)
  also from readHead_buffered [of 4100 ?s'] assms
  have "\<dots> = Some (take 4100 content, ?s'\<lparr>buffered := drop 4100 content\<rparr>)"
    by simp
  finally show ?thesis by simp
qed

text \<open>
  A stream on which \<^verbatim>\<open>'end'\<close> has not been emitted, for which no \<^verbatim>\<open>'readable'\<close> event is
  queued, and which ends before \<open>size'\<close> bytes have come: \<^verbatim>\<open>readHead\<close> never returns.
  While bytes are buffered and end-of-file has not been pushed, \<^verbatim>\<open>read\<close> returns
  \<^verbatim>\<open>null\<close>, attaching the listener queues a \<^verbatim>\<open>'readable'\<close> event, the event resumes the loop
  and the loop finds the stream as it was. Once end-of-file has been pushed, the last
  \<^verbatim>\<open>read\<close> drains the stream and queues \<^verbatim>\<open>'end'\<close>, the next one returns \<^verbatim>\<open>null\<close> while
  \<^verbatim>\<open>readableEnded\<close> is still false, and the loop waits for a \<^verbatim>\<open>'readable'\<close> event that an
  ended stream does not emit any more.
\<close>

lemma short_inv_read_Some:
  assumes "short_inv s n t" "read (n - t) s = (Some chunk, s')"
  shows "short_inv s' n (t + length chunk)"
proof -
  from assms have "\<not> endEmitted s'" "\<not> readableQueued s'"
    "endQueued s' \<longrightarrow> upcoming s' = None \<and> buffered s' = []"
    by (auto simp: short_inv_def read_def howMuchToRead_def Let_def endReadable_def ended_def
        all_bytes_def split: if_splits)
  moreover from read_Some_bytes [OF assms(2)] assms(1)
  have "t + length chunk + length (all_bytes s') < n"
    unfolding short_inv_def by (metis add.assoc length_append)
  ultimately show ?thesis by (simp add: short_inv_def)
qed

lemma short_inv_read_None:
  assumes "short_inv s n t" "read (n - t) s = (None, s')"
  shows "\<not> readableEnded s'"
    and "once_readable s' = Some s'' \<Longrightarrow> short_inv s'' n t"
proof -
  from assms show "\<not> readableEnded s'"
    by (auto simp: short_inv_def read_def howMuchToRead_def Let_def endReadable_def
        readableEnded_def split: if_splits)
  assume o: "once_readable s' = Some s''"
  from assms o have "\<not> endEmitted s''" "\<not> readableQueued s''"
    "endQueued s'' \<longrightarrow> upcoming s'' = None \<and> buffered s'' = []"
    by (auto simp: short_inv_def read_def howMuchToRead_def Let_def endReadable_def ended_def
        once_readable_def endReadableNT_def emitReadable_NT_def on_readable_def next_push_def
        split: if_splits option.splits list.splits)
  moreover from once_readable_bytes [OF o] read_None_bytes [OF assms(2)] assms(1)
  have "t + length (all_bytes s'') < n" by (simp add: short_inv_def)
  ultimately show "short_inv s'' n t" by (simp add: short_inv_def)
qed

lemma readHead_loop_short_aux:
  assumes "readHead_loop s n t ch = Some y"
  shows "\<not> short_inv s n t"
proof (rule readHead_loop.raw_induct [where P = "\<lambda>s n t ch y. \<not> short_inv s n t", OF _ assms],
    goal_cases)
  case (1 loop stream size' total' chunks y)
  note IH = 1(1) and res = 1(2)
  show ?case
  proof
    assume inv: "short_inv stream size' total'"
    then have lt: "total' < size'" by (simp add: short_inv_def)
    obtain r stream' where rd: "read (size' - total') stream = (r, stream')"
      by (cases "read (size' - total') stream")
    show False
    proof (cases r)
      case (Some chunk)
      with rd have rd': "read (size' - total') stream = (Some chunk, stream')" by simp
      from res lt rd'
      have "loop stream' size' (total' + length chunk) (chunks @ [chunk]) = Some y"
        by simp
      from IH [OF this] short_inv_read_Some [OF inv rd'] show False by simp
    next
      case None
      with rd have rd': "read (size' - total') stream = (None, stream')" by simp
      note ne = short_inv_read_None(1) [OF inv rd']
      show False
      proof (cases "once_readable stream'")
        case None
        with res rd' ne lt show False by simp
      next
        case (Some stream'')
        with res rd' ne lt have "loop stream'' size' total' chunks = Some y"
          by simp
        from IH [OF this] short_inv_read_None(2) [OF inv rd' Some] show False by simp
      qed
    qed
  qed
qed

lemma readHead_loop_short:
  "short_inv s n t \<Longrightarrow> readHead_loop s n t ch = None"
  using readHead_loop_short_aux [of s n t ch] by (cases "readHead_loop s n t ch") auto

lemma readHead_short:
  assumes "\<not> endEmitted s" "\<not> readableQueued s" "\<not> endQueued s" "length (all_bytes s) < n"
  shows "readHead s n = None"
  using readHead_loop_short [of s n 0 "[]"] assms by (simp add: readHead_def short_inv_def)

text \<open>
  The same happens, whatever is still to come, as soon as the loop finds some bytes
  buffered but fewer than it asks for before end-of-file has been pushed: the event
  queued by attaching the listener resumes the loop before the producer has had its
  turn, again and again.
\<close>

lemma partial_inv_step:
  assumes "partial_inv s n t"
  shows "\<exists>s'. read (n - t) s = (None, s) \<and> \<not> readableEnded s
            \<and> once_readable s = Some s' \<and> partial_inv s' n t"
  using assms
  by (auto simp: partial_inv_def read_def howMuchToRead_def Let_def ended_def
      readableEnded_def once_readable_def endReadableNT_def emitReadable_NT_def on_readable_def)

lemma readHead_loop_partial_aux:
  assumes "readHead_loop s n t ch = Some y"
  shows "\<not> partial_inv s n t"
proof (rule readHead_loop.raw_induct [where P = "\<lambda>s n t ch y. \<not> partial_inv s n t", OF _ assms],
    goal_cases)
  case (1 loop stream size' total' chunks y)
  note IH = 1(1) and res = 1(2)
  show ?case
  proof
    assume inv: "partial_inv stream size' total'"
    then have lt: "total' < size'" by (simp add: partial_inv_def)
    from partial_inv_step [OF inv] obtain s' where
      st: "read (size' - total') stream = (None, stream)" "\<not> readableEnded stream"
        "once_readable stream = Some s'" "partial_inv s' size' total'"
      by blast
    with res lt have "loop s' size' total' chunks = Some y" by simp
    from IH [OF this] st(4) show False by simp
  qed
qed

lemma readHead_partial:
  assumes "\<not> endEmitted s" "upcoming s \<noteq> None" "buffered s \<noteq> []" "length (buffered s) < n"
  shows "readHead s n = None"
  using readHead_loop_partial_aux [of s n 0 "[]"] assms
  by (cases "readHead_loop s n 0 []") (auto simp: readHead_def partial_inv_def)

text \<open>
  A short buffer is returned in one case: end-of-file was pushed in the very tick in
  which the loop starts, so that the \<^verbatim>\<open>'readable'\<close> event of that push is still queued
  when the loop attaches its listener. The event resumes the loop after \<^verbatim>\<open>'end'\<close> has
  been emitted.
\<close>

lemma readHead_same_tick:
  "readHead \<lparr>buffered = [1, 2, 3], upcoming = None, readableQueued = True, endQueued = False,
             endEmitted = False, paused = True, destroyed = False, closes = 0\<rparr> 4
   = Some ([1, 2, 3],
           \<lparr>buffered = [], upcoming = None, readableQueued = False, endQueued = False,
            endEmitted = True, paused = True, destroyed = False, closes = 0\<rparr>)"
  unfolding readHead_def
  by (subst readHead_loop.simps,
      simp add: read_def howMuchToRead_def ended_def endReadable_def Let_def,
      subst readHead_loop.simps,
      simp add: read_def howMuchToRead_def ended_def endReadable_def Let_def readableEnded_def
        once_readable_def on_readable_def emitReadable_NT_def endReadableNT_def,
      subst readHead_loop.simps,
      simp add: read_def howMuchToRead_def ended_def endReadable_def Let_def readableEnded_def
        Buffer_concat_def)

subsection \<open>The pipeline\<close>


lemma flow_written:
  "\<not> finished body \<Longrightarrow> \<not> body_destroyed body \<Longrightarrow>
   written (flow cs body) = written body @ concat cs \<and> finished (flow cs body)"
  by (induction cs arbitrary: body) (simp_all add: end_body_def body_write_def)

lemma createConvertedStream_roundtrip:
  assumes "createConvertedStream src f km = Some (calls, Returns c)" "\<not> destroyed src"
  shows "written (bodyStream (run_pipe c)) = all_bytes src \<and> finished (bodyStream (run_pipe c))"
proof -
  from assms(1) obtain head source where
    rh: "readHead (pause src) 4100 = Some (head, source)"
    and c: "sourceStream c = resume source" "bodyStream c = body_write head new_PassThrough"
      "piped c"
    by (auto simp: createConvertedStream_def Let_def split: option.splits if_splits)
  from readHead_prefix [OF rh] assms(2)
  have p: "head @ all_bytes source = all_bytes src" "\<not> destroyed source"
    by (simp_all add: pause_def all_bytes_def)
  have b: "written (body_write head new_PassThrough) = head"
    "\<not> finished (body_write head new_PassThrough)"
    "\<not> body_destroyed (body_write head new_PassThrough)"
    by (simp_all add: body_write_def new_PassThrough_def)
  let ?cs = "buffered source # (case upcoming source of None \<Rightarrow> [] | Some cs \<Rightarrow> cs)"
  have cc: "concat ?cs = all_bytes source"
    by (simp add: all_bytes_def split: option.splits)
  have rp: "bodyStream (run_pipe c) = flow ?cs (body_write head new_PassThrough)"
    using c p(2) by (simp add: run_pipe_def Let_def resume_def del: flow.simps)
  from flow_written [OF b(2,3), of ?cs] b(1) cc p(1) rp show ?thesis
    by (simp del: flow.simps)
qed

lemma webp_conversion_of_png:
  "createConvertedStream png_upload (lit ''webp'') False
   = Some ([Pause, ReadHead, DetectMagic, New_PassThrough, Write_head, Pipe_source_body, Resume,
            Sharp, Rotate, ApplyOutputFormat, Pipe_body_transformer],
           Returns \<lparr>sourceStream = resume ((pause png_upload)\<lparr>buffered := []\<rparr>),
                    bodyStream = body_write (png_signature @ replicate 4092 0) new_PassThrough,
                    piped = True,
                    transformer = Some \<lparr>failOnError = False, sequentialRead = True,
                      rotated = True, metadata = False, encoder = Some (Webp 80 4)\<rparr>,
                    stream = Transformer_stream, contentType = lit ''image/webp''\<rparr>)"
  by (simp add: createConvertedStream_def readHead_png_upload detectMagic_png_prefix
      applyOutputFormat_def contentTypeForFormat_def)

text \<open>
  What the server does once the head has been peeked: a head that classifies as invalid,
  and a valid head of a kind other than \<open>svg\<close> when the target is \<open>svg\<close>, make
  \<^verbatim>\<open>createConvertedStream\<close> throw an \<^verbatim>\<open>HttpError\<close> with status 415 and the respective
  message; the only call after classification is the destruction of the source stream,
  which is left destroyed; the transformer is never constructed; both variants of the
  handler answer 415 with that message. A call with target \<open>svg\<close> that returns normally
  has classified the head as \<open>svg\<close>.
\<close>

lemma signature_rejection_after_peek:
  assumes "readHead (pause src) 4100 = Some (head, source)"
  shows "(\<not> valid (detectMagic head) \<longrightarrow>
            createConvertedStream src f km
            = Some ([Pause, ReadHead, DetectMagic, Destroy_source],
                    Throws \<lparr>statusCode = 415,
                            message = lit ''Unsupported or invalid image signature''\<rparr>
                           (destroy source)))
       \<and> (valid (detectMagic head) \<and> f = lit ''svg'' \<and> kind (detectMagic head) \<noteq> lit ''svg'' \<longrightarrow>
            createConvertedStream src f km
            = Some ([Pause, ReadHead, DetectMagic, Destroy_source],
                    Throws \<lparr>statusCode = 415,
                            message = lit ''SVG output only supported for SVG inputs''\<rparr>
                           (destroy source)))
       \<and> destroyed (destroy source)
       \<and> (\<forall>calls c. createConvertedStream src (lit ''svg'') km = Some (calls, Returns c) \<longrightarrow>
             kind (detectMagic head) = lit ''svg'')
       \<and> (file_part request = Some src \<and> isAllowedFormat (request_format request)
            \<and> \<not> valid (detectMagic head) \<longrightarrow>
            convert request
            = Some (json_error 415 (lit ''Unsupported or invalid image signature''),
                    [Request_file, Pause, ReadHead, DetectMagic, Destroy_source],
                    Rejected (destroy source))
          \<and> convert_standalone request
            = Some (json_error 415 (lit ''Unsupported or invalid image signature''),
                    [Request_file, Pause, ReadHead, DetectMagic, Destroy_source],
                    Rejected (destroy source)))
       \<and> (file_part request = Some src \<and> request_format request = lit ''svg''
            \<and> valid (detectMagic head) \<and> kind (detectMagic head) \<noteq> lit ''svg'' \<longrightarrow>
            convert request
            = Some (json_error 415 (lit ''SVG output only supported for SVG inputs''),
                    [Request_file, Pause, ReadHead, DetectMagic, Destroy_source],
                    Rejected (destroy source))
          \<and> convert_standalone request
            = Some (json_error 415 (lit ''SVG output only supported for SVG inputs''),
                    [Request_file, Pause, ReadHead, DetectMagic, Destroy_source],
                    Rejected (destroy source)))"
proof -
  have 1: "\<not> valid (detectMagic head) \<longrightarrow>
            createConvertedStream src f km
            = Some ([Pause, ReadHead, DetectMagic, Destroy_source],
                    Throws \<lparr>statusCode = 415,
                            message = lit ''Unsupported or invalid image signature''\<rparr>
                           (destroy source))" for f km
    using assms by (simp add: createConvertedStream_def Let_def)
  have 2: "valid (detectMagic head) \<and> f = lit ''svg'' \<and> kind (detectMagic head) \<noteq> lit ''svg'' \<longrightarrow>
            createConvertedStream src f km
            = Some ([Pause, ReadHead, DetectMagic, Destroy_source],
                    Throws \<lparr>statusCode = 415,
                            message = lit ''SVG output only supported for SVG inputs''\<rparr>
                           (destroy source))" for f km
    using assms by (simp add: createConvertedStream_def Let_def)
  have 3: "destroyed (destroy source)"
    by (simp add: destroy_def)
  have 4: "\<forall>calls c. createConvertedStream src (lit ''svg'') km = Some (calls, Returns c) \<longrightarrow>
             kind (detectMagic head) = lit ''svg''"
    using assms by (auto simp: createConvertedStream_def Let_def split: if_splits)
  have 5: "convert request
            = Some (json_error 415 (lit ''Unsupported or invalid image signature''),
                    [Request_file, Pause, ReadHead, DetectMagic, Destroy_source],
                    Rejected (destroy source))
          \<and> convert_standalone request
            = Some (json_error 415 (lit ''Unsupported or invalid image signature''),
                    [Request_file, Pause, ReadHead, DetectMagic, Destroy_source],
                    Rejected (destroy source))"
    if h: "file_part request = Some src" "isAllowedFormat (request_format request)"
      "\<not> valid (detectMagic head)"
    using 1 [of "request_format request" "request_keepMetadata request"] h assms
    by (simp add: convert_def convert_standalone_def Let_def)
  have 6: "convert request
            = Some (json_error 415 (lit ''SVG output only supported for SVG inputs''),
                    [Request_file, Pause, ReadHead, DetectMagic, Destroy_source],
                    Rejected (destroy source))
          \<and> convert_standalone request
            = Some (json_error 415 (lit ''SVG output only supported for SVG inputs''),
                    [Request_file, Pause, ReadHead, DetectMagic, Destroy_source],
                    Rejected (destroy source))"
    if h: "file_part request = Some src" "request_format request = lit ''svg''"
      "valid (detectMagic head)" "kind (detectMagic head) \<noteq> lit ''svg''"
  proof -
    have "isAllowedFormat (lit ''svg'')" by (simp add: isAllowedFormat_def)
    with 2 [of "lit ''svg''" "request_keepMetadata request"] h assms show ?thesis
      by (simp add: convert_def convert_standalone_def Let_def)
  qed
  from 1 2 3 4 5 6 show ?thesis by blast
qed

text \<open>The two variants of the handler agree.\<close>

lemma convert_standalone_agrees: "same_outcome (convert_standalone request) (convert request)"
proof (cases "isAllowedFormat (request_format request)")
  case False
  then show ?thesis
    by (simp add: same_outcome_def convert_def convert_standalone_def)
next
  case True
  note al = this
  show ?thesis
  proof (cases "file_part request")
    case None
    with al show ?thesis
      by (simp add: same_outcome_def convert_def convert_standalone_def)
  next
    case (Some fileStream)
    note fp = this
    show ?thesis
    proof (cases "readHead (pause fileStream) 4100")
      case None
      with al fp show ?thesis
        by (simp add: same_outcome_def convert_def convert_standalone_def
            createConvertedStream_def)
    next
      case (Some hs)
      obtain head source where hs: "hs = (head, source)" by (cases hs)
      with al fp Some show ?thesis
        by (auto simp: same_outcome_def convert_def convert_standalone_def
            createConvertedStream_def Let_def json_error_def)
    qed
  qed
qed

section \<open>The claims\<close>

text \<open>
  Claim C1 (reassembly round trip). For a source from which the head has been peeked the
  reassembled stream delivers the original bytes (\<open>createConvertedStream_roundtrip\<close>).
  For a source shorter than the 4100-byte budget the claim fails: head peeking never
  returns, so no reassembled stream is built and the request is never answered, in
  either variant of the handler and whether the six bytes of the upload have arrived
  before the handler looks at the stream or arrive while it waits.
\<close>

theorem short_upload_never_reassembled:
  "createConvertedStream svg_upload (lit ''svg'') False = None
   \<and> createConvertedStream (late_upload (ascii_bytes ''<svg/>'')) (lit ''svg'') False = None
   \<and> convert \<lparr>query_format = Some (lit ''svg''), query_keepMetadata = None,
               file_part = Some svg_upload\<rparr> = None
   \<and> convert_standalone \<lparr>query_format = Some (lit ''svg''), query_keepMetadata = None,
                          file_part = Some svg_upload\<rparr> = None"
proof -
  have r: "readHead (pause svg_upload) 4100 = None"
    by (rule readHead_short)
       (simp_all add: svg_upload_def upload_def pause_def all_bytes_def ascii_bytes_def)
  have l: "readHead (pause (late_upload (ascii_bytes ''<svg/>''))) 4100 = None"
    by (rule readHead_short)
       (simp_all add: late_upload_def pause_def all_bytes_def ascii_bytes_def)
  from r l have c: "createConvertedStream svg_upload f km = None"
    "createConvertedStream (late_upload (ascii_bytes ''<svg/>'')) f km = None" for f km
    by (simp_all add: createConvertedStream_def)
  have "isAllowedFormat (request_format \<lparr>query_format = Some (lit ''svg''),
          query_keepMetadata = None, file_part = Some svg_upload\<rparr>)"
    by (simp add: request_format_def isAllowedFormat_def toLowerCase_def lit_def)
  with c r show ?thesis
    by (simp add: convert_def convert_standalone_def Let_def)
qed

text \<open>
  Claim C2 (the six signature rules in priority order). \<open>detectMagic_rules\<close> says what
  holds: the rules are tried in the claimed order and the first match decides, but the
  rules for WEBP, AVIF and GIF are evaluated on the \<^verbatim>\<open>'ascii'\<close> decoding of the header,
  which drops the highest bit of every byte. A buffer whose bytes 0 to 3 are not \<open>RIFF\<close>
  is therefore classified as \<open>webp\<close>, where the rules as stated give \<open>unknown\<close>; the same
  holds of the buffer padded to a full head of 4100 bytes.
\<close>

theorem high_bit_riff_detected_as_webp:
  "detectMagic high_bit_riff = \<lparr>valid = True, kind = lit ''webp''\<rparr>
   \<and> spec_detectMagic high_bit_riff = \<lparr>valid = False, kind = lit ''unknown''\<rparr>
   \<and> js_slice 0 4 high_bit_riff \<noteq> ascii_bytes ''RIFF''
   \<and> detectMagic (high_bit_riff @ replicate 4088 0) = \<lparr>valid = True, kind = lit ''webp''\<rparr>
   \<and> spec_detectMagic (high_bit_riff @ replicate 4088 0)
       = \<lparr>valid = False, kind = lit ''unknown''\<rparr>"
proof -
  have 1: "detectMagic high_bit_riff = \<lparr>valid = True, kind = lit ''webp''\<rparr>"
    by (simp add: detectMagic_def high_bit_riff_def js_slice_def startsWith_def
        toString_ascii_def png_signature_def buf_at_def lit_def)
  have 2: "spec_detectMagic high_bit_riff = \<lparr>valid = False, kind = lit ''unknown''\<rparr>"
    by (simp add: spec_detectMagic_def signature_rules_def high_bit_riff_def js_slice_def
        startsWith_def png_signature_def ascii_bytes_def toString_utf8_def toLowerCase_def
        utf8_lead_def lit_def)
  have 3: "js_slice 0 4 high_bit_riff \<noteq> ascii_bytes ''RIFF''"
    by (simp add: high_bit_riff_def js_slice_def ascii_bytes_def)
  let ?long = "high_bit_riff @ replicate 4088 0"
  have h: "js_slice 0 12 ?long = high_bit_riff" "js_slice 0 8 ?long = js_slice 0 8 high_bit_riff"
    "js_slice 0 3 ?long = js_slice 0 3 high_bit_riff" "length ?long = 4100"
    "buf_at ?long 0 = Some 0xD2"
    by (simp_all add: high_bit_riff_def js_slice_def buf_at_def)
  have u: "\<not> js_includes (toLowerCase (toString_utf8 ?long)) (lit ''<svg'')"
  proof
    assume "js_includes (toLowerCase (toString_utf8 ?long)) (lit ''<svg'')"
    from js_includes_hd [OF this] show False
      by (simp add: high_bit_riff_def toString_utf8_def utf8_lead_def utf8_decode_zeros
          toLowerCase_def lit_def)
  qed
  have 4: "detectMagic ?long = \<lparr>valid = True, kind = lit ''webp''\<rparr>"
    unfolding detectMagic_def Let_def h
    by (simp add: high_bit_riff_def js_slice_def startsWith_def toString_ascii_def
        png_signature_def lit_def)
  have 5: "spec_detectMagic ?long = \<lparr>valid = False, kind = lit ''unknown''\<rparr>"
    unfolding spec_detectMagic_def signature_rules_def Let_def h
    by (simp add: u, simp add: high_bit_riff_def js_slice_def startsWith_def png_signature_def
        ascii_bytes_def)
  from 1 2 3 4 5 show ?thesis by simp
qed

text \<open>
  Claim C3 (signature errors). The rejection with status 415 is what the server does
  once the head has been peeked (\<open>signature_rejection_after_peek\<close>). It does not happen
  for every request whose content classifies as invalid, or as another kind than the
  \<open>svg\<close> asked for: when the upload is shorter than the head, as the eleven bytes of text
  and the eight bytes of the PNG signature are, head peeking never returns, nothing is
  thrown, the source stream is not destroyed, and neither variant of the handler ever
  answers.
\<close>

theorem invalid_short_upload_never_rejected:
  "\<not> valid (detectMagic (ascii_bytes ''hello world''))
   \<and> createConvertedStream text_upload (lit ''avif'') False = None
   \<and> convert \<lparr>query_format = None, query_keepMetadata = None,
               file_part = Some text_upload\<rparr> = None
   \<and> convert_standalone \<lparr>query_format = None, query_keepMetadata = None,
                          file_part = Some text_upload\<rparr> = None
   \<and> detectMagic png_signature = \<lparr>valid = True, kind = lit ''png''\<rparr>
   \<and> createConvertedStream short_png_upload (lit ''svg'') False = None
   \<and> convert \<lparr>query_format = Some (lit ''svg''), query_keepMetadata = None,
               file_part = Some short_png_upload\<rparr> = None
   \<and> convert_standalone \<lparr>query_format = Some (lit ''svg''), query_keepMetadata = None,
                          file_part = Some short_png_upload\<rparr> = None"
proof -
  have t: "readHead (pause text_upload) 4100 = None"
    by (rule readHead_short)
       (simp_all add: text_upload_def upload_def pause_def all_bytes_def ascii_bytes_def)
  have p: "readHead (pause short_png_upload) 4100 = None"
    by (rule readHead_short)
       (simp_all add: short_png_upload_def upload_def pause_def all_bytes_def png_signature_def)
  from t p have c: "createConvertedStream text_upload f km = None"
    "createConvertedStream short_png_upload f km = None" for f km
    by (simp_all add: createConvertedStream_def)
  have a: "isAllowedFormat (request_format \<lparr>query_format = None,
          query_keepMetadata = None, file_part = Some text_upload\<rparr>)"
    "isAllowedFormat (request_format \<lparr>query_format = Some (lit ''svg''),
          query_keepMetadata = None, file_part = Some short_png_upload\<rparr>)"
    by (simp_all add: request_format_def isAllowedFormat_def toLowerCase_def lit_def)
  have m: "\<not> valid (detectMagic (ascii_bytes ''hello world''))"
    by (simp add: detectMagic_hello)
  have g: "detectMagic png_signature = \<lparr>valid = True, kind = lit ''png''\<rparr>"
    using detectMagic_png_prefix [of "[]"] by simp
  have h: "convert \<lparr>query_format = None, query_keepMetadata = None,
               file_part = Some text_upload\<rparr> = None"
    "convert_standalone \<lparr>query_format = None, query_keepMetadata = None,
               file_part = Some text_upload\<rparr> = None"
    "convert \<lparr>query_format = Some (lit ''svg''), query_keepMetadata = None,
               file_part = Some short_png_upload\<rparr> = None"
    "convert_standalone \<lparr>query_format = Some (lit ''svg''), query_keepMetadata = None,
               file_part = Some short_png_upload\<rparr> = None"
    using a c t p by (simp_all add: convert_def convert_standalone_def Let_def)
  from m c g h show ?thesis by simp
qed

text \<open>
  Claim C4 (head peeking terminates, a short source is final). On a source that ends
  before 4100 bytes \<^verbatim>\<open>readHead\<close> does not return the shorter buffer: it never returns,
  whether the bytes were buffered before the call or arrive during it. \<open>readHead_short\<close>
  is the general statement; the one exception is a stream whose end-of-file was pushed
  in the tick of the call (\<open>readHead_same_tick\<close>). Nor does \<^verbatim>\<open>readHead\<close> return on a
  longer source of which a part, but less than 4100 bytes, is buffered before
  end-of-file (\<open>readHead_partial\<close>). \<open>readHead_prefix\<close> is what holds of every buffer
  that is returned: it has at most 4100 bytes and is the front of the stream.
\<close>

theorem readHead_short_upload_never_returns:
  "readHead (pause svg_upload) 4100 = None
   \<and> readHead (pause (late_upload (ascii_bytes ''<svg/>''))) 4100 = None"
proof
  show "readHead (pause svg_upload) 4100 = None"
    by (rule readHead_short)
       (simp_all add: svg_upload_def upload_def pause_def all_bytes_def ascii_bytes_def)
  show "readHead (pause (late_upload (ascii_bytes ''<svg/>''))) 4100 = None"
    by (rule readHead_short)
       (simp_all add: late_upload_def pause_def all_bytes_def ascii_bytes_def)
qed

text \<open>
  Claim C5 (cleanup is idempotent). Calling \<^verbatim>\<open>cleanup\<close> twice, or any number of times,
  leaves the same state as calling it once, and after it both the source stream and the
  reassembly buffer are destroyed.
\<close>

theorem cleanup_idempotent:
  "cleanup (cleanup c) = cleanup c
   \<and> (cleanup ^^ Suc n) c = cleanup c
   \<and> destroyed (sourceStream (cleanup c)) \<and> body_destroyed (bodyStream (cleanup c))"
proof -
  have 1: "cleanup (cleanup c) = cleanup c" for c
    by (simp add: cleanup_def destroy_def destroy_body_def)
  have 2: "(cleanup ^^ Suc n) c = cleanup c"
    by (induction n) (simp_all add: 1)
  have 3: "destroyed (sourceStream (cleanup c)) \<and> body_destroyed (bodyStream (cleanup c))"
    by (simp add: cleanup_def destroy_def destroy_body_def)
  from 1 2 3 show ?thesis by blast
qed

text \<open>
  Claim C6 (unknown format tokens). A request whose format token is not allowed is
  answered with status 400 and the handler, in either variant, has made no call at all:
  the file part was not asked for, and no stream of the request was touched.
\<close>

theorem unknown_format_rejected_before_io:
  assumes "\<not> isAllowedFormat (request_format request)"
  shows "convert request =
           Some (json_error 400
                   (lit ''Unsupported format. Use one of: avif, webp, png, jpeg, jpg, svg.''),
                 [], Untouched)
       \<and> convert_standalone request =
           Some (json_error 400
                   (lit ''Unsupported format. Use one of: avif, webp, png, jpeg, jpg, svg.''),
                 [], Untouched)"
  using assms by (simp add: convert_def convert_standalone_def Let_def)

theorem unknown_format_rejected_before_io_witness:
  "\<not> isAllowedFormat (request_format \<lparr>query_format = Some (lit ''bogus''),
        query_keepMetadata = None, file_part = Some png_upload\<rparr>)
   \<and> convert \<lparr>query_format = Some (lit ''bogus''), query_keepMetadata = None,
               file_part = Some png_upload\<rparr>
     = Some (json_error 400
               (lit ''Unsupported format. Use one of: avif, webp, png, jpeg, jpg, svg.''),
             [], Untouched)
   \<and> convert_standalone \<lparr>query_format = Some (lit ''bogus''), query_keepMetadata = None,
               file_part = Some png_upload\<rparr>
     = Some (json_error 400
               (lit ''Unsupported format. Use one of: avif, webp, png, jpeg, jpg, svg.''),
             [], Untouched)"
proof -
  have h: "\<not> isAllowedFormat (request_format \<lparr>query_format = Some (lit ''bogus''),
        query_keepMetadata = None, file_part = Some png_upload\<rparr>)"
    by (simp add: request_format_def isAllowedFormat_def toLowerCase_def lit_def)
  from unknown_format_rejected_before_io [OF h] h show ?thesis by simp
qed



text \<open>
  Claim C8 (request parameters). An absent format selector gives the default token
  \<open>avif\<close>; a selector is lower-cased, so selectors that differ only in case give the same
  token; \<open>keepMetadata\<close> is true exactly for the value \<open>1\<close>; and both variants of the
  handler depend on the two query parameters only through these two values.
\<close>

theorem request_parameters:
  "request_format (request\<lparr>query_format := None\<rparr>) = lit ''avif''
   \<and> (v \<noteq> [] \<longrightarrow> request_format (request\<lparr>query_format := Some v\<rparr>) = toLowerCase v)
   \<and> (toLowerCase v = toLowerCase v' \<longrightarrow>
        request_format (request\<lparr>query_format := Some v\<rparr>)
        = request_format (request\<lparr>query_format := Some v'\<rparr>))
   \<and> request_keepMetadata request = (query_keepMetadata request = Some (lit ''1''))
   \<and> (request_format request = request_format request'
        \<and> request_keepMetadata request = request_keepMetadata request'
        \<and> file_part request = file_part request' \<longrightarrow>
          convert request = convert request'
          \<and> convert_standalone request = convert_standalone request')"
proof -
  have 1: "request_format (request\<lparr>query_format := None\<rparr>) = lit ''avif''"
    by (simp add: request_format_def toLowerCase_def lit_def)
  have 2: "v \<noteq> [] \<longrightarrow> request_format (request\<lparr>query_format := Some v\<rparr>) = toLowerCase v"
    by (simp add: request_format_def)
  have 3: "toLowerCase v = toLowerCase v' \<longrightarrow>
        request_format (request\<lparr>query_format := Some v\<rparr>)
        = request_format (request\<lparr>query_format := Some v'\<rparr>)"
  proof
    assume e: "toLowerCase v = toLowerCase v'"
    then have "v = [] \<longleftrightarrow> v' = []"
      by (metis toLowerCase_Nil_iff)
    with e show "request_format (request\<lparr>query_format := Some v\<rparr>)
        = request_format (request\<lparr>query_format := Some v'\<rparr>)"
      by (auto simp: request_format_def)
  qed
  have 4: "request_keepMetadata request = (query_keepMetadata request = Some (lit ''1''))"
    by (simp add: request_keepMetadata_def toLowerCase_one_iff split: option.splits)
  have 5: "request_format request = request_format request'
        \<and> request_keepMetadata request = request_keepMetadata request'
        \<and> file_part request = file_part request' \<longrightarrow>
          convert request = convert request'
          \<and> convert_standalone request = convert_standalone request'"
  proof (intro impI, elim conjE)
    assume a: "request_format request = request_format request'"
      and b: "request_keepMetadata request = request_keepMetadata request'"
      and c: "file_part request = file_part request'"
    have "convert request = convert request'"
      unfolding convert_def a b c by (rule refl)
    moreover have "convert_standalone request = convert_standalone request'"
      unfolding convert_standalone_def a b c by (rule refl)
    ultimately show "convert request = convert request'
          \<and> convert_standalone request = convert_standalone request'"
      by (rule conjI)
  qed
  from 1 2 3 4 5 show ?thesis by blast
qed

theorem request_parameters_witness:
  "request_format \<lparr>query_format = Some (lit ''WebP''), query_keepMetadata = Some (lit ''1''),
                   file_part = None\<rparr> = lit ''webp''
   \<and> request_format \<lparr>query_format = Some (lit ''WebP''), query_keepMetadata = Some (lit ''1''),
                   file_part = None\<rparr>
     = request_format \<lparr>query_format = Some (lit ''WEBP''), query_keepMetadata = Some (lit ''1''),
                   file_part = None\<rparr>
   \<and> request_keepMetadata \<lparr>query_format = Some (lit ''WebP''),
        query_keepMetadata = Some (lit ''1''), file_part = None\<rparr>
   \<and> \<not> request_keepMetadata \<lparr>query_format = Some (lit ''WebP''),
        query_keepMetadata = Some (lit ''true''), file_part = None\<rparr>"
proof -
  let ?r = "\<lparr>query_format = Some (lit ''WebP''), query_keepMetadata = Some (lit ''1''),
             file_part = None\<rparr>"
  let ?q = "\<lparr>query_format = Some (lit ''WebP''), query_keepMetadata = Some (lit ''true''),
             file_part = None\<rparr>"
  have l: "toLowerCase (lit ''WebP'') = lit ''webp''" "toLowerCase (lit ''WEBP'') = lit ''webp''"
    "lit ''WebP'' \<noteq> []"
    by (simp_all add: toLowerCase_def lit_def)
  note t = request_parameters [of ?r "lit ''WebP''" "lit ''WEBP''" ?r]
  from t l(3) have 1: "request_format (?r\<lparr>query_format := Some (lit ''WebP'')\<rparr>)
                      = toLowerCase (lit ''WebP'')"
    by blast
  from t l(1,2) have 2: "request_format (?r\<lparr>query_format := Some (lit ''WebP'')\<rparr>)
                        = request_format (?r\<lparr>query_format := Some (lit ''WEBP'')\<rparr>)"
    by (metis (no_types))
  from t have 3: "request_keepMetadata ?r = (query_keepMetadata ?r = Some (lit ''1''))"
    by blast
  from request_parameters [of ?q "lit ''WebP''" "lit ''WEBP''" ?q]
  have 4: "request_keepMetadata ?q = (query_keepMetadata ?q = Some (lit ''1''))"
    by blast
  from 1 2 3 4 l(1) show ?thesis by simp
qed

text \<open>
  Claim C9 (\<^verbatim>\<open>detectMagic\<close> is total and its result is well formed). For every buffer,
  the empty one included, \<open>valid\<close> holds exactly when \<open>kind\<close> is not \<open>unknown\<close>, \<open>kind\<close> is
  one of the seven names, and the three indexed reads are inside the buffer whenever the
  length test that guards them holds.
\<close>

theorem detectMagic_total_invariant:
  "valid (detectMagic b) = (kind (detectMagic b) \<noteq> lit ''unknown'')
   \<and> kind (detectMagic b) \<in> {lit ''png'', lit ''jpeg'', lit ''webp'', lit ''avif'', lit ''gif'',
                              lit ''svg'', lit ''unknown''}
   \<and> detectMagic [] = \<lparr>valid = False, kind = lit ''unknown''\<rparr>
   \<and> (length b \<ge> 3 \<longrightarrow> buf_at b 0 = Some (b ! 0) \<and> buf_at b 1 = Some (b ! 1) \<and> buf_at b 2 = Some (b ! 2))"
proof -
  have e: "detectMagic [] = \<lparr>valid = False, kind = lit ''unknown''\<rparr>"
    by (simp add: detectMagic_def js_slice_def startsWith_def toString_ascii_def toString_utf8_def
        toLowerCase_def png_signature_def lit_def)
  have g: "length b \<ge> 3 \<longrightarrow> buf_at b 0 = Some (b ! 0) \<and> buf_at b 1 = Some (b ! 1) \<and> buf_at b 2 = Some (b ! 2)"
    by (simp add: buf_at_def)
  from detectMagic_cases [of b] e g show ?thesis
    by auto
qed

theorem detectMagic_total_invariant_witness:
  "3 \<le> length [0xFF, 0xD8, 0xFF :: byte]
   \<and> buf_at [0xFF, 0xD8, 0xFF] 2 = Some 0xFF
   \<and> valid (detectMagic [0xFF, 0xD8, 0xFF])
   \<and> kind (detectMagic [0xFF, 0xD8, 0xFF]) = lit ''jpeg''
   \<and> kind (detectMagic [0xFF, 0xD8, 0xFF]) \<noteq> lit ''unknown''"
  using detectMagic_total_invariant [of "[0xFF, 0xD8, 0xFF]"]
    detectMagic_jpeg_prefix [of "[]"]
  by simp

text \<open>
  Claim C10 (\<open>jpg\<close> is \<open>jpeg\<close>). The token \<open>jpg\<close> is accepted and gets the options and the
  content type of \<open>jpeg\<close>; the two conversions are equal, and the two replies differ in
  the file name of the \<^verbatim>\<open>Content-Disposition\<close> header only.
\<close>

theorem jpg_handled_as_jpeg:
  "isAllowedFormat (lit ''jpg'')
   \<and> applyOutputFormat t (lit ''jpg'') = applyOutputFormat t (lit ''jpeg'')
   \<and> encoder (applyOutputFormat t (lit ''jpg'')) = Some (Jpeg 82 True)
   \<and> contentTypeForFormat (lit ''jpg'') = lit ''image/jpeg''
   \<and> contentTypeForFormat (lit ''jpeg'') = lit ''image/jpeg''
   \<and> createConvertedStream src (lit ''jpg'') km = createConvertedStream src (lit ''jpeg'') km
   \<and> (request_format request = lit ''jpg'' \<and> request_format request' = lit ''jpeg''
        \<and> request_keepMetadata request = request_keepMetadata request'
        \<and> file_part request = file_part request' \<longrightarrow>
          map_option (\<lambda>(r, x). (r\<lparr>content_disposition := None\<rparr>, x)) (convert request)
          = map_option (\<lambda>(r, x). (r\<lparr>content_disposition := None\<rparr>, x)) (convert request')
        \<and> (\<forall>r cs c. convert request = Some (r, cs, Serving c) \<longrightarrow>
              content_disposition r = Some (lit ''inline; filename=\"converted.jpg\"''))
        \<and> (\<forall>r cs c. convert request' = Some (r, cs, Serving c) \<longrightarrow>
              content_disposition r = Some (lit ''inline; filename=\"converted.jpeg\"'')))"
proof -
  have 1: "isAllowedFormat (lit ''jpg'')"
    by (simp add: isAllowedFormat_def)
  have 2: "applyOutputFormat t (lit ''jpg'') = applyOutputFormat t (lit ''jpeg'')
           \<and> encoder (applyOutputFormat t (lit ''jpg'')) = Some (Jpeg 82 True)" for t
    by (simp add: applyOutputFormat_def)
  have 3: "contentTypeForFormat (lit ''jpg'') = lit ''image/jpeg''
           \<and> contentTypeForFormat (lit ''jpeg'') = lit ''image/jpeg''"
    by (simp add: contentTypeForFormat_def)
  have 4: "createConvertedStream src (lit ''jpg'') km = createConvertedStream src (lit ''jpeg'') km"
    for src km
    using 2 3 by (auto simp: createConvertedStream_def Let_def split: option.splits)
  have 5: "map_option (\<lambda>(r, x). (r\<lparr>content_disposition := None\<rparr>, x)) (convert request)
          = map_option (\<lambda>(r, x). (r\<lparr>content_disposition := None\<rparr>, x)) (convert request')
        \<and> (\<forall>r cs c. convert request = Some (r, cs, Serving c) \<longrightarrow>
              content_disposition r = Some (lit ''inline; filename=\"converted.jpg\"''))
        \<and> (\<forall>r cs c. convert request' = Some (r, cs, Serving c) \<longrightarrow>
              content_disposition r = Some (lit ''inline; filename=\"converted.jpeg\"''))"
    if h: "request_format request = lit ''jpg''" "request_format request' = lit ''jpeg''"
      "request_keepMetadata request = request_keepMetadata request'"
      "file_part request = file_part request'"
    using h 4 [of _ "request_keepMetadata request'"]
    by (auto simp: convert_def Let_def isAllowedFormat_def json_error_def lit_def
        split: option.splits result.splits)
  from 1 2 3 4 5 show ?thesis by blast
qed

theorem jpg_handled_as_jpeg_witness:
  "request_format \<lparr>query_format = Some (lit ''jpg''), query_keepMetadata = None,
                   file_part = Some jpeg_upload\<rparr> = lit ''jpg''
   \<and> request_format \<lparr>query_format = Some (lit ''JPEG''), query_keepMetadata = None,
                     file_part = Some jpeg_upload\<rparr> = lit ''jpeg''
   \<and> (\<exists>r cs c. convert \<lparr>query_format = Some (lit ''jpg''), query_keepMetadata = None,
                          file_part = Some jpeg_upload\<rparr> = Some (r, cs, Serving c)
        \<and> content_type r = Some (lit ''image/jpeg'')
        \<and> content_disposition r = Some (lit ''inline; filename=\"converted.jpg\"'')
        \<and> convert \<lparr>query_format = Some (lit ''JPEG''), query_keepMetadata = None,
                    file_part = Some jpeg_upload\<rparr>
          = Some (r\<lparr>content_disposition := Some (lit ''inline; filename=\"converted.jpeg\"'')\<rparr>,
                  cs, Serving c))"
proof -
  let ?a = "\<lparr>query_format = Some (lit ''jpg''), query_keepMetadata = None,
             file_part = Some jpeg_upload\<rparr>"
  let ?b = "\<lparr>query_format = Some (lit ''JPEG''), query_keepMetadata = None,
             file_part = Some jpeg_upload\<rparr>"
  have f: "request_format ?a = lit ''jpg''" "request_format ?b = lit ''jpeg''"
    "request_keepMetadata ?a = request_keepMetadata ?b" "file_part ?a = file_part ?b"
    by (simp_all add: request_format_def request_keepMetadata_def toLowerCase_def lit_def)
  have c: "createConvertedStream jpeg_upload (lit ''jpg'') False
   = Some ([Pause, ReadHead, DetectMagic, New_PassThrough, Write_head, Pipe_source_body, Resume,
            Sharp, Rotate, ApplyOutputFormat, Pipe_body_transformer],
           Returns \<lparr>sourceStream = resume ((pause jpeg_upload)\<lparr>buffered := []\<rparr>),
                    bodyStream = body_write ([0xFF, 0xD8, 0xFF] @ replicate 4097 0) new_PassThrough,
                    piped = True,
                    transformer = Some \<lparr>failOnError = False, sequentialRead = True,
                      rotated = True, metadata = False, encoder = Some (Jpeg 82 True)\<rparr>,
                    stream = Transformer_stream, contentType = lit ''image/jpeg''\<rparr>)"
    by (simp add: createConvertedStream_def readHead_jpeg_upload detectMagic_jpeg_prefix
        applyOutputFormat_def contentTypeForFormat_def)
  have k: "\<not> request_keepMetadata ?a" "\<not> request_keepMetadata ?b"
    by (simp_all add: request_keepMetadata_def)
  have al: "isAllowedFormat (lit ''jpg'')" "isAllowedFormat (lit ''jpeg'')"
    by (simp_all add: isAllowedFormat_def)
  have la: "lit x @ lit y = lit (x @ y)" for x y
    by (simp add: lit_def)
  from jpg_handled_as_jpeg [of "\<lparr>failOnError = False, sequentialRead = True, rotated = True, metadata = False, encoder = None\<rparr>"
      jpeg_upload False ?a ?b] f
  have e: "createConvertedStream jpeg_upload (lit ''jpeg'') False
           = createConvertedStream jpeg_upload (lit ''jpg'') False"
    by simp
  have ca: "convert ?a = Some (\<lparr>code = 200, content_type = Some (lit ''image/jpeg''),
       content_disposition = Some (lit ''inline; filename=\"converted.jpg\"''),
       payload = Send Transformer_stream\<rparr>,
       [Request_file, Pause, ReadHead, DetectMagic, New_PassThrough, Write_head,
        Pipe_source_body, Resume, Sharp, Rotate, ApplyOutputFormat, Pipe_body_transformer,
        On_close],
       Serving \<lparr>sourceStream = resume ((pause jpeg_upload)\<lparr>buffered := []\<rparr>),
                    bodyStream = body_write ([0xFF, 0xD8, 0xFF] @ replicate 4097 0) new_PassThrough,
                    piped = True,
                    transformer = Some \<lparr>failOnError = False, sequentialRead = True,
                      rotated = True, metadata = False, encoder = Some (Jpeg 82 True)\<rparr>,
                    stream = Transformer_stream, contentType = lit ''image/jpeg''\<rparr>)"
    unfolding convert_def Let_def f(1)
    by (simp add: k c al la)
  have cb: "convert ?b = Some (\<lparr>code = 200, content_type = Some (lit ''image/jpeg''),
       content_disposition = Some (lit ''inline; filename=\"converted.jpeg\"''),
       payload = Send Transformer_stream\<rparr>,
       [Request_file, Pause, ReadHead, DetectMagic, New_PassThrough, Write_head,
        Pipe_source_body, Resume, Sharp, Rotate, ApplyOutputFormat, Pipe_body_transformer,
        On_close],
       Serving \<lparr>sourceStream = resume ((pause jpeg_upload)\<lparr>buffered := []\<rparr>),
                    bodyStream = body_write ([0xFF, 0xD8, 0xFF] @ replicate 4097 0) new_PassThrough,
                    piped = True,
                    transformer = Some \<lparr>failOnError = False, sequentialRead = True,
                      rotated = True, metadata = False, encoder = Some (Jpeg 82 True)\<rparr>,
                    stream = Transformer_stream, contentType = lit ''image/jpeg''\<rparr>)"
    unfolding convert_def Let_def f(2)
    by (simp add: k e c al la)
  from f(1,2) ca cb show ?thesis by simp
qed

end
